theory Spec2Isabelle
  imports Complex_Main "HOL-Library.AList" "HOL-Library.Multiset_Order"
begin

section \<open>Data model\<close>

text \<open>
  The exceptions the code raises, as values.  \<open>DuplicateNameException\<close> is the repository's
  own exception; the others are Python's built-in ones.
\<close>

datatype error =
    DuplicateNameException
  | KeyError
  | TypeError
  | AssertionError
  | IndexError
  | ValueError

text \<open>
  Python floats are modelled as reals (no rounding, no NaN).  A geometry attribute is a float
  or, where \<open>from_world_body\<close> passes \<open>shape.dimensions\<close> on as it is, a list of floats.
\<close>

datatype pyval = PyFloat real | PyList "real list"

text \<open>
  The geometric shapes of \<open>urdf_parser_py\<close>: \<open>Box(size)\<close>, \<open>Sphere(radius)\<close>,
  \<open>Cylinder(radius, length)\<close>, \<open>Mesh(filename)\<close>.
\<close>

datatype geometry =
    Box "real list"
  | Sphere real
  | Cylinder pyval real
  | Mesh string

record Material =
  material_name :: string
  color :: "real list"

record Visual =
  v_geometry :: geometry
  material :: "Material option"

record Collision =
  c_geometry :: geometry

record Link =
  l_name :: string
  visual :: "Visual option"
  collision :: "Collision option"

record JointLimit =
  effort :: real
  velocity :: real
  lower :: real
  upper :: real

record SafetyController =
  k_velocity :: real
  k_position :: real
  soft_lower_limit :: real
  soft_upper_limit :: real

text \<open>
  The origin of a joint is \<open>up.Pose(xyz, rpy)\<close>.  The roll, pitch and yaw are the Euler angles
  tf computes from a quaternion; they are kept as the quaternion they are computed from.
\<close>

record UPose =
  xyz :: "real list"
  rpy_of :: "real list"

record Joint =
  j_name :: string
  parent :: string
  child :: string
  j_type :: string
  origin :: "UPose option"
  limit :: "JointLimit option"
  safety_controller :: "SafetyController option"
  mimic :: "string option"

datatype element = LinkElem Link | JointElem Joint

text \<open>
  A description document (the XML text) is kept as its content: the robot's name and its
  \<open>link\<close> and \<open>joint\<close> elements in document order.
\<close>

type_synonym urdf = "string \<times> element list"

text \<open>
  Modelled from the spec: the \<open>Robot\<close> container of \<open>urdf_parser_py\<close> (an external library,
  absent from the sources): the registry (\<open>links\<close>, \<open>joints\<close>, \<open>link_map\<close>, \<open>joint_map\<close>) and
  the tree index (\<open>parent_map\<close>: link \<open>\<mapsto>\<close> (joint, parent link); \<open>child_map\<close>:
  link \<open>\<mapsto>\<close> list of (joint, child link)).  Dictionaries are association lists with distinct
  keys, in insertion order.
\<close>

record Robot =
  name :: string
  joints :: "Joint list"
  links :: "Link list"
  aggregate_order :: "element list"
  joint_map :: "(string \<times> Joint) list"
  link_map :: "(string \<times> Link) list"
  parent_map :: "(string \<times> (string \<times> string)) list"
  child_map :: "(string \<times> (string \<times> string) list) list"

record URDFObject =
  original_urdf :: urdf
  urdf_robot :: Robot

section \<open>The container operations\<close>

definition Robot_init :: "string \<Rightarrow> Robot" where
  "Robot_init robot_name =
     \<lparr>name = robot_name, joints = [], links = [], aggregate_order = [],
      joint_map = [], link_map = [], parent_map = [], child_map = []\<rparr>"

text \<open>
  Modelled from the spec: \<open>Robot.add_link\<close> appends the link and registers it under its name.
\<close>

definition add_link :: "Link \<Rightarrow> Robot \<Rightarrow> Robot" where
  "add_link link r =
     r\<lparr>links := links r @ [link],
       aggregate_order := aggregate_order r @ [LinkElem link],
       link_map := AList.update (l_name link) link (link_map r)\<rparr>"

text \<open>
  Modelled from the spec: \<open>Robot.add_joint\<close> appends the joint, registers it under its name
  and enters it into the tree index: it becomes the parent joint of its child link and is
  appended to the child joints of its parent link.
\<close>

definition add_joint :: "Joint \<Rightarrow> Robot \<Rightarrow> Robot" where
  "add_joint joint r =
     r\<lparr>joints := joints r @ [joint],
       aggregate_order := aggregate_order r @ [JointElem joint],
       joint_map := AList.update (j_name joint) joint (joint_map r),
       parent_map := AList.update (child joint) (j_name joint, parent joint) (parent_map r),
       child_map :=
         (case map_of (child_map r) (parent joint) of
            Some cs \<Rightarrow>
              AList.update (parent joint) (cs @ [(j_name joint, child joint)]) (child_map r)
          | None \<Rightarrow>
              AList.update (parent joint) [(j_name joint, child joint)] (child_map r))\<rparr>"

fun add_aggregate :: "element \<Rightarrow> Robot \<Rightarrow> Robot" where
  "add_aggregate (LinkElem l) r = add_link l r"
| "add_aggregate (JointElem j) r = add_joint j r"

text \<open>
  Modelled from the spec: \<open>remove_aggregate\<close> takes the object out of the element lists only
  (\<open>list.remove\<close> raises \<open>ValueError\<close> when it is not there); the maps stay as they are
  until the robot is parsed again.
\<close>

fun remove_aggregate :: "element \<Rightarrow> Robot \<Rightarrow> error option \<times> Robot" where
  "remove_aggregate (LinkElem l) r =
     (if LinkElem l \<in> set (aggregate_order r) then
        (None, r\<lparr>aggregate_order := remove1 (LinkElem l) (aggregate_order r),
                  links := remove1 l (links r)\<rparr>)
      else (Some ValueError, r))"
| "remove_aggregate (JointElem j) r =
     (if JointElem j \<in> set (aggregate_order r) then
        (None, r\<lparr>aggregate_order := remove1 (JointElem j) (aggregate_order r),
                  joints := remove1 j (joints r)\<rparr>)
      else (Some ValueError, r))"

text \<open>
  Modelled from the spec: serialization writes the name and the elements in their order;
  parsing adds the elements of the document, in order, to an empty robot (the round-trip
  contract of the spec).
\<close>

definition to_xml_string :: "Robot \<Rightarrow> urdf" where
  "to_xml_string r = (name r, aggregate_order r)"

definition from_xml_string :: "urdf \<Rightarrow> Robot" where
  "from_xml_string doc = fold add_aggregate (snd doc) (Robot_init (fst doc))"

text \<open>
  Modelled from the spec: \<open>Robot.get_root\<close> is the one link of \<open>link_map\<close> that is no key of
  \<open>parent_map\<close>; a second such link, or none, fails an assertion.
\<close>

fun get_root_loop :: "string list \<Rightarrow> (string \<times> (string \<times> string)) list \<Rightarrow> string option
    \<Rightarrow> error + string option" where
  "get_root_loop [] pm rt = Inr rt"
| "get_root_loop (link # rest) pm rt =
     (if map_of pm link = None then
        (if rt = None then get_root_loop rest pm (Some link) else Inl AssertionError)
      else get_root_loop rest pm rt)"

definition Robot_get_root :: "Robot \<Rightarrow> error + string" where
  "Robot_get_root r =
     (case get_root_loop (map fst (link_map r)) (parent_map r) None of
        Inl e \<Rightarrow> Inl e
      | Inr None \<Rightarrow> Inl AssertionError
      | Inr (Some rt) \<Rightarrow> Inr rt)"

section \<open>URDFObject\<close>

definition JOINT_TYPES :: "string list" where
  "JOINT_TYPES = [''fixed'', ''revolute'', ''continuous'', ''prismatic'']"

definition MOVABLE_JOINT_TYPES :: "string list" where
  "MOVABLE_JOINT_TYPES = [''revolute'', ''continuous'', ''prismatic'']"

definition ROTATIONAL_JOINT_TYPES :: "string list" where
  "ROTATIONAL_JOINT_TYPES = [''revolute'', ''continuous'']"

definition TRANSLATIONAL_JOINT_TYPES :: "string list" where
  "TRANSLATIONAL_JOINT_TYPES = [''prismatic'']"

text \<open>
  \<open>__init__\<close> keeps the document and parses it.  The line filter applied before parsing drops
  \<open>transmission\<close> and \<open>gazebo\<close> sections, which a document as modelled here does not have.
\<close>

definition URDFObject_init :: "urdf \<Rightarrow> URDFObject" where
  "URDFObject_init doc = \<lparr>original_urdf = doc, urdf_robot = from_xml_string doc\<rparr>"

definition from_parts :: "string \<Rightarrow> Link list \<Rightarrow> Joint list \<Rightarrow> URDFObject" where
  "from_parts robot_name ls js =
     URDFObject_init
       (to_xml_string (fold add_joint js (fold add_link ls (Robot_init robot_name))))"

definition get_name :: "URDFObject \<Rightarrow> string" where
  "get_name self = name (urdf_robot self)"

definition get_joint_names :: "URDFObject \<Rightarrow> string list" where
  "get_joint_names self = map fst (joint_map (urdf_robot self))"

definition get_link_names :: "URDFObject \<Rightarrow> string list" where
  "get_link_names self = map fst (link_map (urdf_robot self))"

definition get_urdf_joint :: "URDFObject \<Rightarrow> string \<Rightarrow> error + Joint" where
  "get_urdf_joint self joint_name =
     (case map_of (joint_map (urdf_robot self)) joint_name of
        None \<Rightarrow> Inl KeyError
      | Some j \<Rightarrow> Inr j)"

definition get_urdf_link :: "URDFObject \<Rightarrow> string \<Rightarrow> error + Link" where
  "get_urdf_link self link_name =
     (case map_of (link_map (urdf_robot self)) link_name of
        None \<Rightarrow> Inl KeyError
      | Some l \<Rightarrow> Inr l)"

definition get_urdf :: "URDFObject \<Rightarrow> urdf" where
  "get_urdf self = to_xml_string (urdf_robot self)"

definition get_root :: "URDFObject \<Rightarrow> error + string" where
  "get_root self = Robot_get_root (urdf_robot self)"

definition reinitialize :: "URDFObject \<Rightarrow> URDFObject" where
  "reinitialize self = self\<lparr>urdf_robot := from_xml_string (get_urdf self)\<rparr>"

definition robot_name_to_root_joint :: "string \<Rightarrow> string" where
  "robot_name_to_root_joint n = n"

subsection \<open>Joint classification and limits\<close>

text \<open>
  The body of \<open>get_joint_limits\<close> once the joint is found.  Reading an attribute of an absent
  \<open>safety_controller\<close> or \<open>limit\<close> raises \<open>AttributeError\<close>, which the two \<open>try\<close> blocks
  catch: the first falls back to the hard limits, the second to \<open>(None, None)\<close>.
\<close>

definition joint_limits :: "Joint \<Rightarrow> real option \<times> real option" where
  "joint_limits joint =
     (case (safety_controller joint, limit joint) of
        (Some sc, Some hard) \<Rightarrow>
          (Some (max (soft_lower_limit sc) (lower hard)),
           Some (min (soft_upper_limit sc) (upper hard)))
      | _ \<Rightarrow>
          (case limit joint of
             Some hard \<Rightarrow> (Some (lower hard), Some (upper hard))
           | None \<Rightarrow> (None, None)))"

definition get_joint_limits :: "URDFObject \<Rightarrow> string \<Rightarrow> error + (real option \<times> real option)" where
  "get_joint_limits self joint_names =
     (case get_urdf_joint self joint_names of
        Inl e \<Rightarrow> Inl e
      | Inr joint \<Rightarrow> Inr (joint_limits joint))"

definition is_joint_controllable :: "URDFObject \<Rightarrow> string \<Rightarrow> error + bool" where
  "is_joint_controllable self n =
     (case get_urdf_joint self n of
        Inl e \<Rightarrow> Inl e
      | Inr joint \<Rightarrow> Inr (j_type joint \<in> set MOVABLE_JOINT_TYPES \<and> mimic joint = None))"

definition get_joint_type :: "URDFObject \<Rightarrow> string \<Rightarrow> error + string" where
  "get_joint_type self n =
     (case get_urdf_joint self n of
        Inl e \<Rightarrow> Inl e
      | Inr joint \<Rightarrow> Inr (j_type joint))"

definition is_joint_continuous :: "URDFObject \<Rightarrow> string \<Rightarrow> error + bool" where
  "is_joint_continuous self n =
     (case get_joint_type self n of
        Inl e \<Rightarrow> Inl e
      | Inr t \<Rightarrow> Inr (t = ''continuous''))"

text \<open>
  The dictionary comprehension of \<open>get_all_joint_limits\<close>: one entry for every name of
  \<open>joint_map\<close> whose joint is controllable.
\<close>

definition get_all_joint_limits ::
    "URDFObject \<Rightarrow> (string \<times> (error + (real option \<times> real option))) list" where
  "get_all_joint_limits self =
     map (\<lambda>joint_name. (joint_name, get_joint_limits self joint_name))
       (filter (\<lambda>joint_name. is_joint_controllable self joint_name = Inr True)
          (get_joint_names self))"

subsection \<open>Geometry\<close>

definition sphere_volume :: "real \<Rightarrow> real" where
  "sphere_volume radius = (4 / 3) * pi * radius ^ 3"

definition cube_volume :: "real \<Rightarrow> real \<Rightarrow> real \<Rightarrow> real" where
  "cube_volume length' width height = length' * width * height"

definition cube_surface :: "real \<Rightarrow> real \<Rightarrow> real \<Rightarrow> real" where
  "cube_surface length' width height =
     2 * (length' * width + length' * height + width * height)"

definition cylinder_volume :: "real \<Rightarrow> real \<Rightarrow> real" where
  "cylinder_volume r h = pi * r ^ 2 * h"

definition cylinder_surface :: "real \<Rightarrow> real \<Rightarrow> real" where
  "cylinder_surface r h = 2 * pi * r * (h + r)"

text \<open>
  \<open>has_link_collision\<close>.  \<open>cube_volume(*geo.size)\<close> raises \<open>TypeError\<close> unless the size has
  three components, and so does the arithmetic on a radius that is a list.
\<close>

definition has_link_collision :: "URDFObject \<Rightarrow> string \<Rightarrow> real \<Rightarrow> real \<Rightarrow> error + bool" where
  "has_link_collision self link_name volume_threshold surface_threshold =
     (case map_of (link_map (urdf_robot self)) link_name of
        None \<Rightarrow> Inl KeyError
      | Some link \<Rightarrow>
          (case collision link of
             None \<Rightarrow> Inr False
           | Some col \<Rightarrow>
               (case c_geometry col of
                  Box sz \<Rightarrow>
                    (case sz of
                       [l, w, h] \<Rightarrow>
                         Inr (cube_volume l w h > volume_threshold \<or>
                              cube_surface l w h > surface_threshold)
                     | _ \<Rightarrow> Inl TypeError)
                | Sphere radius \<Rightarrow> Inr (sphere_volume radius > volume_threshold)
                | Cylinder radius len \<Rightarrow>
                    (case radius of
                       PyFloat r \<Rightarrow>
                         Inr (cylinder_volume r len > volume_threshold \<or>
                              cylinder_surface r len > surface_threshold)
                     | PyList _ \<Rightarrow> Inl TypeError)
                | Mesh _ \<Rightarrow> Inr True)))"

text \<open>The call with the default thresholds \<open>1e-6\<close> and \<open>1e-4\<close>.\<close>

definition has_link_collision_default :: "URDFObject \<Rightarrow> string \<Rightarrow> error + bool" where
  "has_link_collision_default self link_name =
     has_link_collision self link_name (1 / 10 ^ 6) (1 / 10 ^ 4)"

text \<open>
  The collision-relevance predicate in the words of the spec: the link has collision geometry
  and it is a mesh, or a box, sphere or cylinder above a threshold.
\<close>

definition collision_relevant_spec :: "Link \<Rightarrow> real \<Rightarrow> real \<Rightarrow> bool" where
  "collision_relevant_spec link vt st =
     (\<exists>col. collision link = Some col \<and>
        ((\<exists>f. c_geometry col = Mesh f) \<or>
         (\<exists>l w h. c_geometry col = Box [l, w, h] \<and>
            (l * w * h > vt \<or> 2 * (l * w + l * h + w * h) > st)) \<or>
         (\<exists>r. c_geometry col = Sphere r \<and> (4 / 3) * pi * r ^ 3 > vt) \<or>
         (\<exists>r h. c_geometry col = Cylinder (PyFloat r) h \<and>
            (pi * r ^ 2 * h > vt \<or> 2 * pi * r * (h + r) > st))))"

text \<open>
  The geometry a parsed document can carry: a box has three sizes and a cylinder's radius is
  a number.
\<close>

fun parsed_geometry :: "geometry \<Rightarrow> bool" where
  "parsed_geometry (Box sz) = (length sz = 3)"
| "parsed_geometry (Cylinder (PyList _) _) = False"
| "parsed_geometry _ = True"

subsection \<open>Construction from a body descriptor\<close>









subsection \<open>Sub-tree extraction\<close>

text \<open>
  The inner loop of \<open>get_sub_tree_at_joint\<close>: the joints of the \<open>(joint, link)\<close> pairs of a
  \<open>child_map\<close> entry, looked up by name.
\<close>

fun child_joints :: "URDFObject \<Rightarrow> (string \<times> string) list \<Rightarrow> error + Joint list" where
  "child_joints self [] = Inr []"
| "child_joints self ((j, l) # cs) =
     (case get_urdf_joint self j of
        Inl e \<Rightarrow> Inl e
      | Inr jt \<Rightarrow>
          (case child_joints self cs of
             Inl e \<Rightarrow> Inl e
           | Inr jts \<Rightarrow> Inr (jt # jts)))"

text \<open>
  The outer loop runs over the list \<open>joints\<close> while appending to it, so it is a work list:
  the first argument holds the joints not yet visited.  On a robot whose joints form a cycle
  the Python loop does not end; here the result is then \<open>None\<close>.
\<close>

partial_function (option) sub_tree_loop ::
    "URDFObject \<Rightarrow> string list \<Rightarrow> Link list \<Rightarrow> Joint list
      \<Rightarrow> (error + Link list \<times> Joint list) option" where
  "sub_tree_loop self js tree_links tree_joints =
     (case js of
        [] \<Rightarrow> Some (Inr (tree_links, tree_joints))
      | joint # rest \<Rightarrow>
          (case map_of (joint_map (urdf_robot self)) joint of
             None \<Rightarrow> Some (Inl KeyError)
           | Some jt \<Rightarrow>
               (case child_joints self
                       (case map_of (child_map (urdf_robot self)) (child jt) of
                          None \<Rightarrow> []
                        | Some cs \<Rightarrow> cs) of
                  Inl e \<Rightarrow> Some (Inl e)
                | Inr new_joints \<Rightarrow>
                    (case get_urdf_link self (child jt) of
                       Inl e \<Rightarrow> Some (Inl e)
                     | Inr l \<Rightarrow>
                         sub_tree_loop self
                           (rest @ map fst
                              (case map_of (child_map (urdf_robot self)) (child jt) of
                                 None \<Rightarrow> []
                               | Some cs \<Rightarrow> cs))
                           (tree_links @ [l]) (tree_joints @ new_joints)))))"

definition get_sub_tree_at_joint :: "URDFObject \<Rightarrow> string \<Rightarrow> (error + URDFObject) option" where
  "get_sub_tree_at_joint self joint_name =
     (case sub_tree_loop self [joint_name] [] [] of
        None \<Rightarrow> None
      | Some (Inl e) \<Rightarrow> Some (Inl e)
      | Some (Inr (tree_links, tree_joints)) \<Rightarrow>
          Some (Inr (from_parts joint_name tree_links tree_joints)))"

definition get_links_from_sub_tree :: "URDFObject \<Rightarrow> string \<Rightarrow> (error + string list) option" where
  "get_links_from_sub_tree self joint_name =
     (case get_sub_tree_at_joint self joint_name of
        None \<Rightarrow> None
      | Some (Inl e) \<Rightarrow> Some (Inl e)
      | Some (Inr sub_tree) \<Rightarrow> Some (Inr (get_link_names sub_tree)))"

subsection \<open>Attaching and detaching\<close>

record Point =
  p_x :: real
  p_y :: real
  p_z :: real

record Quaternion =
  q_x :: real
  q_y :: real
  q_z :: real
  q_w :: real

record Pose =
  position :: Point
  orientation :: Quaternion

text \<open>
  A mutating method returns the exception it raised, if any, and the object as it is then.
  The three checks of \<open>attach_urdf_object\<close> and the evaluation of \<open>urdf_object.get_root()\<close>
  come before the first \<open>add_joint\<close>.
\<close>

definition attach_urdf_object ::
    "URDFObject \<Rightarrow> URDFObject \<Rightarrow> string \<Rightarrow> Pose \<Rightarrow> error option \<times> URDFObject" where
  "attach_urdf_object self urdf_object parent_link pose =
     (if get_name urdf_object \<in> set (get_link_names self) then
        (Some DuplicateNameException, self)
      else if get_name urdf_object \<in> set (get_joint_names self) then
        (Some DuplicateNameException, self)
      else if parent_link \<notin> set (get_link_names self) then (Some KeyError, self)
      else
        (case get_root urdf_object of
           Inl e \<Rightarrow> (Some e, self)
         | Inr child_link \<Rightarrow>
             (None,
              reinitialize
                (self\<lparr>urdf_robot :=
                   fold add_link (links (urdf_robot urdf_object))
                     (fold add_joint (joints (urdf_robot urdf_object))
                        (add_joint
                           \<lparr>j_name = robot_name_to_root_joint (get_name urdf_object),
                            parent = parent_link,
                            child = child_link,
                            j_type = ''fixed'',
                            origin =
                              Some \<lparr>xyz = [p_x (position pose), p_y (position pose),
                                           p_z (position pose)],
                                    rpy_of = [q_x (orientation pose), q_y (orientation pose),
                                              q_z (orientation pose), q_w (orientation pose)]\<rparr>,
                            limit = None,
                            safety_controller = None,
                            mimic = None\<rparr>
                           (urdf_robot self)))\<rparr>))))"

text \<open>The two loops of \<open>detach_sub_tree\<close>; an exception leaves what was removed so far removed.\<close>

fun remove_links :: "URDFObject \<Rightarrow> string list \<Rightarrow> error option \<times> URDFObject" where
  "remove_links self [] = (None, self)"
| "remove_links self (link # rest) =
     (case get_urdf_link self link of
        Inl e \<Rightarrow> (Some e, self)
      | Inr l \<Rightarrow>
          (case remove_aggregate (LinkElem l) (urdf_robot self) of
             (Some e, r) \<Rightarrow> (Some e, self\<lparr>urdf_robot := r\<rparr>)
           | (None, r) \<Rightarrow> remove_links (self\<lparr>urdf_robot := r\<rparr>) rest))"

fun remove_joints :: "URDFObject \<Rightarrow> string list \<Rightarrow> error option \<times> URDFObject" where
  "remove_joints self [] = (None, self)"
| "remove_joints self (joint # rest) =
     (case get_urdf_joint self joint of
        Inl e \<Rightarrow> (Some e, self)
      | Inr j \<Rightarrow>
          (case remove_aggregate (JointElem j) (urdf_robot self) of
             (Some e, r) \<Rightarrow> (Some e, self\<lparr>urdf_robot := r\<rparr>)
           | (None, r) \<Rightarrow> remove_joints (self\<lparr>urdf_robot := r\<rparr>) rest))"

definition detach_sub_tree :: "URDFObject \<Rightarrow> string \<Rightarrow> (error option \<times> URDFObject) option" where
  "detach_sub_tree self joint_name =
     (case get_sub_tree_at_joint self joint_name of
        None \<Rightarrow> None
      | Some (Inl e) \<Rightarrow> Some (Some e, self)
      | Some (Inr sub_tree) \<Rightarrow>
          Some (case remove_links self (get_link_names sub_tree) of
                  (Some e, s1) \<Rightarrow> (Some e, s1)
                | (None, s1) \<Rightarrow>
                    (case remove_joints s1 (joint_name # get_joint_names sub_tree) of
                       (Some e, s2) \<Rightarrow> (Some e, s2)
                     | (None, s2) \<Rightarrow> (None, reinitialize s2))))"

section \<open>Example trees\<close>

text \<open>
  The tree of the spec's examples: \<open>base_link\<close>, joined by the revolute joint \<open>j1\<close> to
  \<open>arm_link\<close>; the joint has hard limits \<open>(-1, 1)\<close> and soft limits \<open>(-0.5, 0.8)\<close>.
\<close>

definition base_link :: Link where
  "base_link = \<lparr>l_name = ''base_link'', visual = None, collision = None\<rparr>"

definition arm_link :: Link where
  "arm_link = \<lparr>l_name = ''arm_link'', visual = None,
                collision = Some \<lparr>c_geometry = Box [1, 1, 1]\<rparr>\<rparr>"

definition j1 :: Joint where
  "j1 = \<lparr>j_name = ''j1'', parent = ''base_link'', child = ''arm_link'', j_type = ''revolute'',
          origin = None,
          limit = Some \<lparr>effort = 0, velocity = 1, lower = - 1, upper = 1\<rparr>,
          safety_controller =
            Some \<lparr>k_velocity = 0, k_position = 0, soft_lower_limit = - (1 / 2),
                  soft_upper_limit = 4 / 5\<rparr>,
          mimic = None\<rparr>"

definition arm_tree :: URDFObject where
  "arm_tree = from_parts ''robot'' [base_link, arm_link] [j1]"

text \<open>
  Two bodies to attach: \<open>gripper\<close>, whose only link has the name of a link of \<open>arm_tree\<close>,
  and \<open>arm_body\<close>, which has that name itself.
\<close>

definition zero_pose :: Pose where
  "zero_pose = \<lparr>position = \<lparr>p_x = 0, p_y = 0, p_z = 0\<rparr>,
                 orientation = \<lparr>q_x = 0, q_y = 0, q_z = 0, q_w = 1\<rparr>\<rparr>"

definition gripper :: URDFObject where
  "gripper = from_parts ''gripper'' [arm_link] []"

definition arm_body :: URDFObject where
  "arm_body = from_parts ''arm_link'' [arm_link] []"

text \<open>
  Variants of the example tree: the joint made continuous, made fixed, made fixed without
  limits; and the arm's collision box shrunk to a millimetre.
\<close>

definition turn_tree :: URDFObject where
  "turn_tree = from_parts ''robot'' [base_link, arm_link] [j1\<lparr>j_type := ''continuous''\<rparr>]"

definition weld_tree :: URDFObject where
  "weld_tree = from_parts ''robot'' [base_link, arm_link] [j1\<lparr>j_type := ''fixed''\<rparr>]"

definition bare_weld_tree :: URDFObject where
  "bare_weld_tree =
     from_parts ''robot'' [base_link, arm_link]
       [j1\<lparr>j_type := ''fixed'', limit := None, safety_controller := None\<rparr>]"

definition speck_tree :: URDFObject where
  "speck_tree =
     from_parts ''robot''
       [base_link,
        arm_link\<lparr>collision := Some \<lparr>c_geometry = Box [1 / 1000, 1 / 1000, 1 / 1000]\<rparr>\<rparr>]
       [j1]"




section \<open>Valid trees\<close>

text \<open>The links and the joints of a document, in document order.\<close>

fun link_elems :: "element list \<Rightarrow> Link list" where
  "link_elems [] = []"
| "link_elems (LinkElem l # es) = l # link_elems es"
| "link_elems (JointElem j # es) = link_elems es"

fun joint_elems :: "element list \<Rightarrow> Joint list" where
  "joint_elems [] = []"
| "joint_elems (LinkElem l # es) = joint_elems es"
| "joint_elems (JointElem j # es) = j # joint_elems es"

text \<open>
  A robot is \<open>parsed\<close> when its maps are those of its elements: parsing its serialized form
  gives the robot back.  Every \<open>URDFObject\<close> is built by parsing, and \<open>attach_urdf_object\<close>
  and \<open>detach_sub_tree\<close> end by parsing again.
\<close>

definition parsed :: "Robot \<Rightarrow> bool" where
  "parsed r \<longleftrightarrow> from_xml_string (to_xml_string r) = r"

text \<open>
  The invariants of the spec.  Link names are unique and joint names are unique (a link and a
  joint may share a name, as the link and the joint of an attached single-link body do);
  the links a joint names exist; a link has at most one parent joint; there is exactly one
  root; and the joints form no cycle: some rank of the links falls from every parent link to
  its child link.
\<close>

definition valid_tree :: "URDFObject \<Rightarrow> bool" where
  "valid_tree self \<longleftrightarrow>
     parsed (urdf_robot self) \<and>
     distinct (map l_name (links (urdf_robot self))) \<and>
     distinct (map j_name (joints (urdf_robot self))) \<and>
     (\<forall>j \<in> set (joints (urdf_robot self)).
        parent j \<in> l_name ` set (links (urdf_robot self)) \<and>
        child j \<in> l_name ` set (links (urdf_robot self))) \<and>
     distinct (map child (joints (urdf_robot self))) \<and>
     (\<exists>rt. get_root self = Inr rt) \<and>
     (\<exists>m :: string \<Rightarrow> nat. \<forall>j \<in> set (joints (urdf_robot self)). m (child j) < m (parent j))"

text \<open>
  The edges of the tree, from parent link to child link, and the links reachable downward
  from a link.
\<close>

definition edges :: "URDFObject \<Rightarrow> (string \<times> string) set" where
  "edges self = {(parent j, child j) | j. j \<in> set (joints (urdf_robot self))}"

definition below :: "URDFObject \<Rightarrow> string \<Rightarrow> string set" where
  "below self link_name = (edges self)\<^sup>* `` {link_name}"

text \<open>The links reachable downward from the child links of the joints of a work list.\<close>

definition queue_below :: "URDFObject \<Rightarrow> string list \<Rightarrow> string set" where
  "queue_below self q =
     (\<Union>j \<in> {j \<in> set (joints (urdf_robot self)). j_name j \<in> set q}. below self (child j))"

text \<open>
  A chain of three links, \<open>base_link\<close>, \<open>arm_link\<close> and \<open>hand_link\<close>: the example tree with
  a hand welded to the arm.
\<close>

definition hand_link :: Link where
  "hand_link = \<lparr>l_name = ''hand_link'', visual = None, collision = None\<rparr>"

definition j2 :: Joint where
  "j2 = \<lparr>j_name = ''j2'', parent = ''arm_link'', child = ''hand_link'', j_type = ''fixed'',
          origin = None, limit = None, safety_controller = None, mimic = None\<rparr>"

definition chain_tree :: URDFObject where
  "chain_tree = from_parts ''robot'' [base_link, arm_link, hand_link] [j1, j2]"

text \<open>The rank of the links of the chain: their height above the hand.\<close>

definition chain_rank :: "string \<Rightarrow> nat" where
  "chain_rank l = (if l = ''base_link'' then 2 else if l = ''arm_link'' then 1 else 0)"

section \<open>Properties\<close>

lemma arm_tree_robot:
  "urdf_robot arm_tree =
     \<lparr>name = ''robot'', joints = [j1], links = [base_link, arm_link],
      aggregate_order = [LinkElem base_link, LinkElem arm_link, JointElem j1],
      joint_map = [(''j1'', j1)],
      link_map = [(''base_link'', base_link), (''arm_link'', arm_link)],
      parent_map = [(''arm_link'', (''j1'', ''base_link''))],
      child_map = [(''base_link'', [(''j1'', ''arm_link'')])]\<rparr>"
  by (simp add: arm_tree_def from_parts_def URDFObject_init_def to_xml_string_def
      from_xml_string_def Robot_init_def add_link_def add_joint_def base_link_def arm_link_def
      j1_def)

subsection \<open>Effective limits\<close>

text \<open>
  C4.  For a joint that has hard position limits, \<open>get_joint_limits\<close> returns
  \<open>(max(hard.lower, soft.lower), min(hard.upper, soft.upper))\<close> when a safety controller
  is present, and the hard limits unchanged when it is absent.
\<close>

theorem C4_effective_limits:
  assumes "map_of (joint_map (urdf_robot self)) n = Some joint"
    and "limit joint = Some hard"
  shows "get_joint_limits self n =
           Inr (case safety_controller joint of
                  Some soft \<Rightarrow>
                    (Some (max (lower hard) (soft_lower_limit soft)),
                     Some (min (upper hard) (soft_upper_limit soft)))
                | None \<Rightarrow> (Some (lower hard), Some (upper hard)))"
  using assms
  by (simp add: get_joint_limits_def get_urdf_joint_def joint_limits_def max.commute
      min.commute split: option.splits)

theorem C4_effective_limits_witness:
  "map_of (joint_map (urdf_robot arm_tree)) ''j1'' = Some j1 \<and>
   limit j1 = Some \<lparr>effort = 0, velocity = 1, lower = - 1, upper = 1\<rparr> \<and>
   get_joint_limits arm_tree ''j1'' = Inr (Some (- (1 / 2)), Some (4 / 5)) \<and>
   get_joint_limits (from_parts ''robot'' [base_link, arm_link] [j1\<lparr>safety_controller := None\<rparr>])
     ''j1'' = Inr (Some (- 1), Some 1)"
proof -
  have a: "map_of (joint_map (urdf_robot arm_tree)) ''j1'' = Some j1"
    by (simp add: arm_tree_robot)
  have b: "limit j1 = Some \<lparr>effort = 0, velocity = 1, lower = - 1, upper = 1\<rparr>"
    by (simp add: j1_def)
  have c: "map_of (joint_map (urdf_robot
      (from_parts ''robot'' [base_link, arm_link] [j1\<lparr>safety_controller := None\<rparr>]))) ''j1''
      = Some (j1\<lparr>safety_controller := None\<rparr>)"
    by (simp add: from_parts_def URDFObject_init_def to_xml_string_def
      from_xml_string_def Robot_init_def add_link_def add_joint_def base_link_def arm_link_def
      j1_def)
  have d: "limit (j1\<lparr>safety_controller := None\<rparr>)
      = Some \<lparr>effort = 0, velocity = 1, lower = - 1, upper = 1\<rparr>"
    by (simp add: j1_def)
  show ?thesis
    using a b C4_effective_limits [OF a b] C4_effective_limits [OF c d]
    by (simp add: j1_def)
qed

subsection \<open>Attaching\<close>

lemma gripper_robot:
  "urdf_robot gripper =
     \<lparr>name = ''gripper'', joints = [], links = [arm_link],
      aggregate_order = [LinkElem arm_link],
      joint_map = [], link_map = [(''arm_link'', arm_link)],
      parent_map = [], child_map = []\<rparr>"
  by (simp add: gripper_def from_parts_def URDFObject_init_def to_xml_string_def
      from_xml_string_def Robot_init_def add_link_def arm_link_def)

lemma arm_body_robot:
  "urdf_robot arm_body =
     \<lparr>name = ''arm_link'', joints = [], links = [arm_link],
      aggregate_order = [LinkElem arm_link],
      joint_map = [], link_map = [(''arm_link'', arm_link)],
      parent_map = [], child_map = []\<rparr>"
  by (simp add: arm_body_def from_parts_def URDFObject_init_def to_xml_string_def
      from_xml_string_def Robot_init_def add_link_def arm_link_def)

lemma get_root_loop_error: "get_root_loop ks pm rt = Inl e \<Longrightarrow> e = AssertionError"
  by (induction ks arbitrary: rt) (auto split: if_splits)

lemma get_root_error: "get_root self = Inl e \<Longrightarrow> e = AssertionError"
  by (auto simp: get_root_def Robot_get_root_def split: sum.splits option.splits
      dest: get_root_loop_error)

text \<open>
  C1.  An \<open>attach_urdf_object\<close> call that raises (duplicate name, unknown parent link, or
  the other tree having no single root) leaves the target exactly as it was: the object,
  hence its registry, index and serialized form, is unchanged.
\<close>

theorem C1_attach_atomic:
  assumes "fst (attach_urdf_object self urdf_object parent_link pose) = Some e"
  shows "snd (attach_urdf_object self urdf_object parent_link pose) = self \<and>
         get_urdf (snd (attach_urdf_object self urdf_object parent_link pose)) = get_urdf self"
  using assms by (auto simp: attach_urdf_object_def split: if_splits sum.splits)

theorem C1_attach_atomic_witness:
  "fst (attach_urdf_object arm_tree arm_body ''base_link'' zero_pose)
     = Some DuplicateNameException \<and>
   snd (attach_urdf_object arm_tree arm_body ''base_link'' zero_pose) = arm_tree \<and>
   fst (attach_urdf_object arm_tree gripper ''no_link'' zero_pose) = Some KeyError \<and>
   snd (attach_urdf_object arm_tree gripper ''no_link'' zero_pose) = arm_tree"
proof -
  have a: "fst (attach_urdf_object arm_tree arm_body ''base_link'' zero_pose)
      = Some DuplicateNameException"
    by (simp add: attach_urdf_object_def get_name_def get_link_names_def arm_tree_robot
        arm_body_robot)
  have b: "fst (attach_urdf_object arm_tree gripper ''no_link'' zero_pose) = Some KeyError"
    by (simp add: attach_urdf_object_def get_name_def get_link_names_def get_joint_names_def
        arm_tree_robot gripper_robot)
  show ?thesis
    using a b C1_attach_atomic [OF a] C1_attach_atomic [OF b] by simp
qed

text \<open>
  C2, as stated, fails: \<open>gripper\<close> has a link named \<open>arm_link\<close>, as \<open>arm_tree\<close> has, and is
  attached without an error, since only the name of the attached object is compared.
\<close>

theorem C2_counterexample:
  "''arm_link'' \<in> set (get_link_names gripper) \<and>
   ''arm_link'' \<in> set (get_link_names arm_tree) \<and>
   fst (attach_urdf_object arm_tree gripper ''base_link'' zero_pose) = None"
  by (simp add: attach_urdf_object_def get_name_def get_link_names_def get_joint_names_def
      arm_tree_robot gripper_robot get_root_def Robot_get_root_def)

text \<open>
  C2, amended.  \<open>attach_urdf_object\<close> fails with \<open>DuplicateNameException\<close> exactly when the
  name of the attached object (the name the new joint gets) is a link name or a joint name of
  the target; the other names of the attached object are not compared.
\<close>

theorem C2_duplicate_root_name:
  "fst (attach_urdf_object self urdf_object parent_link pose) = Some DuplicateNameException
     \<longleftrightarrow> get_name urdf_object \<in> set (get_link_names self) \<union> set (get_joint_names self)"
  by (auto simp: attach_urdf_object_def split: sum.splits dest: get_root_error)

subsection \<open>The variants of the example tree\<close>

lemma turn_tree_joint_map:
  "joint_map (urdf_robot turn_tree) = [(''j1'', j1\<lparr>j_type := ''continuous''\<rparr>)]"
  by (simp add: turn_tree_def from_parts_def URDFObject_init_def to_xml_string_def
      from_xml_string_def Robot_init_def add_link_def add_joint_def base_link_def arm_link_def
      j1_def)

lemma weld_tree_joint_map:
  "joint_map (urdf_robot weld_tree) = [(''j1'', j1\<lparr>j_type := ''fixed''\<rparr>)]"
  by (simp add: weld_tree_def from_parts_def URDFObject_init_def to_xml_string_def
      from_xml_string_def Robot_init_def add_link_def add_joint_def base_link_def arm_link_def
      j1_def)

lemma bare_weld_tree_joint_map:
  "joint_map (urdf_robot bare_weld_tree) =
     [(''j1'', j1\<lparr>j_type := ''fixed'', limit := None, safety_controller := None\<rparr>)]"
  by (simp add: bare_weld_tree_def from_parts_def URDFObject_init_def to_xml_string_def
      from_xml_string_def Robot_init_def add_link_def add_joint_def base_link_def arm_link_def
      j1_def)

lemma speck_tree_link_map:
  "link_map (urdf_robot speck_tree) =
     [(''base_link'', base_link),
      (''arm_link'',
       arm_link\<lparr>collision := Some \<lparr>c_geometry = Box [1 / 1000, 1 / 1000, 1 / 1000]\<rparr>\<rparr>)]"
  by (simp add: speck_tree_def from_parts_def URDFObject_init_def to_xml_string_def
      from_xml_string_def Robot_init_def add_link_def add_joint_def base_link_def arm_link_def
      j1_def)

subsection \<open>Limits of continuous and fixed joints\<close>

text \<open>
  C5, as stated, fails: a continuous joint that declares limits gets them back, from
  \<open>get_joint_limits\<close> and in \<open>get_all_joint_limits\<close>.
\<close>

theorem C5_counterexample:
  "is_joint_continuous turn_tree ''j1'' = Inr True \<and>
   get_joint_limits turn_tree ''j1'' = Inr (Some (- (1 / 2)), Some (4 / 5)) \<and>
   get_all_joint_limits turn_tree = [(''j1'', Inr (Some (- (1 / 2)), Some (4 / 5)))]"
  by (simp add: is_joint_continuous_def get_joint_type_def get_joint_limits_def
      get_urdf_joint_def get_all_joint_limits_def get_joint_names_def is_joint_controllable_def
      MOVABLE_JOINT_TYPES_def joint_limits_def turn_tree_joint_map j1_def)

text \<open>
  C5, amended.  For a continuous joint \<open>get_joint_limits\<close> does what it does for every
  joint: it returns \<open>(None, None)\<close> when the joint declares no limits, and the declared
  limits (narrowed by the soft limits when present) when it declares them; a continuous
  joint that is no mimic joint is listed with that result by \<open>get_all_joint_limits\<close>.
\<close>

theorem C5_continuous_limits:
  assumes "map_of (joint_map (urdf_robot self)) n = Some joint"
    and "j_type joint = ''continuous''"
  shows "(limit joint = None \<longrightarrow> get_joint_limits self n = Inr (None, None)) \<and>
         (\<forall>hard. limit joint = Some hard \<longrightarrow>
            get_joint_limits self n =
              Inr (case safety_controller joint of
                     Some soft \<Rightarrow>
                       (Some (max (lower hard) (soft_lower_limit soft)),
                        Some (min (upper hard) (soft_upper_limit soft)))
                   | None \<Rightarrow> (Some (lower hard), Some (upper hard)))) \<and>
         (mimic joint = None \<longrightarrow>
            (n, get_joint_limits self n) \<in> set (get_all_joint_limits self))"
proof -
  from assms(1) have "n \<in> set (get_joint_names self)"
    by (auto simp: get_joint_names_def dest: map_of_SomeD intro: rev_image_eqI)
  with assms show ?thesis
    by (auto simp: get_joint_limits_def get_urdf_joint_def joint_limits_def max.commute
        min.commute get_all_joint_limits_def is_joint_controllable_def MOVABLE_JOINT_TYPES_def
        split: option.splits)
qed

theorem C5_continuous_limits_witness:
  "map_of (joint_map (urdf_robot turn_tree)) ''j1'' = Some (j1\<lparr>j_type := ''continuous''\<rparr>) \<and>
   j_type (j1\<lparr>j_type := ''continuous''\<rparr>) = ''continuous'' \<and>
   limit (j1\<lparr>j_type := ''continuous''\<rparr>)
     = Some \<lparr>effort = 0, velocity = 1, lower = - 1, upper = 1\<rparr> \<and>
   mimic (j1\<lparr>j_type := ''continuous''\<rparr>) = None \<and>
   get_joint_limits turn_tree ''j1'' = Inr (Some (- (1 / 2)), Some (4 / 5)) \<and>
   (''j1'', get_joint_limits turn_tree ''j1'') \<in> set (get_all_joint_limits turn_tree)"
proof -
  have a: "map_of (joint_map (urdf_robot turn_tree)) ''j1''
      = Some (j1\<lparr>j_type := ''continuous''\<rparr>)"
    by (simp add: turn_tree_joint_map)
  have b: "j_type (j1\<lparr>j_type := ''continuous''\<rparr>) = ''continuous''"
    by simp
  have c: "limit (j1\<lparr>j_type := ''continuous''\<rparr>)
      = Some \<lparr>effort = 0, velocity = 1, lower = - 1, upper = 1\<rparr>"
    by (simp add: j1_def)
  have d: "mimic (j1\<lparr>j_type := ''continuous''\<rparr>) = None"
    by (simp add: j1_def)
  have e: "safety_controller (j1\<lparr>j_type := ''continuous''\<rparr>) =
      Some \<lparr>k_velocity = 0, k_position = 0, soft_lower_limit = - (1 / 2),
            soft_upper_limit = 4 / 5\<rparr>"
    by (simp add: j1_def)
  show ?thesis
    using a b c d e C5_continuous_limits [OF a b] by auto
qed

text \<open>
  C6, as stated, fails: for a fixed joint \<open>get_joint_limits\<close> returns a value and raises
  nothing: the declared limits when there are any, the pair \<open>(None, None)\<close> otherwise.
\<close>

theorem C6_counterexample:
  "get_joint_type weld_tree ''j1'' = Inr ''fixed'' \<and>
   get_joint_limits weld_tree ''j1'' = Inr (Some (- (1 / 2)), Some (4 / 5)) \<and>
   get_joint_type bare_weld_tree ''j1'' = Inr ''fixed'' \<and>
   get_joint_limits bare_weld_tree ''j1'' = Inr (None, None)"
  by (simp add: get_joint_type_def get_joint_limits_def get_urdf_joint_def joint_limits_def
      weld_tree_joint_map bare_weld_tree_joint_map j1_def)

text \<open>
  C6, amended.  For a fixed joint \<open>get_joint_limits\<close> returns normally: the pair
  \<open>(None, None)\<close> when the joint declares no limits, and the declared limits (narrowed by
  the soft limits when present) when it declares them.
\<close>

theorem C6_fixed_limits:
  assumes "map_of (joint_map (urdf_robot self)) n = Some joint"
    and "j_type joint = ''fixed''"
  shows "(\<exists>lims. get_joint_limits self n = Inr lims) \<and>
         (limit joint = None \<longrightarrow> get_joint_limits self n = Inr (None, None)) \<and>
         (\<forall>hard. limit joint = Some hard \<longrightarrow>
            get_joint_limits self n =
              Inr (case safety_controller joint of
                     Some soft \<Rightarrow>
                       (Some (max (lower hard) (soft_lower_limit soft)),
                        Some (min (upper hard) (soft_upper_limit soft)))
                   | None \<Rightarrow> (Some (lower hard), Some (upper hard))))"
  using assms
  by (auto simp: get_joint_limits_def get_urdf_joint_def joint_limits_def max.commute
      min.commute split: option.splits)

theorem C6_fixed_limits_witness:
  "map_of (joint_map (urdf_robot bare_weld_tree)) ''j1''
     = Some (j1\<lparr>j_type := ''fixed'', limit := None, safety_controller := None\<rparr>) \<and>
   j_type (j1\<lparr>j_type := ''fixed'', limit := None, safety_controller := None\<rparr>) = ''fixed'' \<and>
   limit (j1\<lparr>j_type := ''fixed'', limit := None, safety_controller := None\<rparr>) = None \<and>
   get_joint_limits bare_weld_tree ''j1'' = Inr (None, None)"
proof -
  have a: "map_of (joint_map (urdf_robot bare_weld_tree)) ''j1''
      = Some (j1\<lparr>j_type := ''fixed'', limit := None, safety_controller := None\<rparr>)"
    by (simp add: bare_weld_tree_joint_map)
  have b: "j_type (j1\<lparr>j_type := ''fixed'', limit := None, safety_controller := None\<rparr>)
      = ''fixed''"
    by simp
  show ?thesis
    using a b C6_fixed_limits [OF a b] by simp
qed

subsection \<open>Collision relevance\<close>

lemma length_3E: "length xs = 3 \<Longrightarrow> \<exists>a b c. xs = [a, b, c]"
  by (cases xs; cases "tl xs"; cases "tl (tl xs)") auto

text \<open>
  C7.  With the default thresholds, \<open>has_link_collision\<close> of a link of a parsed
  description is the predicate of the spec: true iff the link has collision geometry that
  is a mesh, or a box, sphere or cylinder above a threshold; a link without collision
  geometry is never collision-relevant.
\<close>

theorem C7_collision_relevance:
  assumes "map_of (link_map (urdf_robot self)) n = Some link"
    and "\<forall>col. collision link = Some col \<longrightarrow> parsed_geometry (c_geometry col)"
  shows "has_link_collision_default self n =
           Inr (collision_relevant_spec link (1 / 10 ^ 6) (1 / 10 ^ 4)) \<and>
         (collision link = None \<longrightarrow> has_link_collision_default self n = Inr False)"
proof (cases "collision link")
  case None
  with assms(1) show ?thesis
    by (simp add: has_link_collision_default_def has_link_collision_def
        collision_relevant_spec_def)
next
  case (Some col)
  with assms(2) have pg: "parsed_geometry (c_geometry col)" by simp
  have "has_link_collision_default self n =
           Inr (collision_relevant_spec link (1 / 10 ^ 6) (1 / 10 ^ 4))"
  proof (cases "c_geometry col")
    case (Box sz)
    with pg obtain l w h where "sz = [l, w, h]"
      using length_3E by force
    with Box Some assms(1) show ?thesis
      by (simp add: has_link_collision_default_def has_link_collision_def
          collision_relevant_spec_def cube_volume_def cube_surface_def)
  next
    case (Sphere r)
    with Some assms(1) show ?thesis
      by (simp add: has_link_collision_default_def has_link_collision_def
          collision_relevant_spec_def sphere_volume_def)
  next
    case (Cylinder rad h)
    with pg obtain r where "rad = PyFloat r"
      by (cases rad) auto
    with Cylinder Some assms(1) show ?thesis
      by (simp add: has_link_collision_default_def has_link_collision_def
          collision_relevant_spec_def cylinder_volume_def cylinder_surface_def)
  next
    case (Mesh f)
    with Some assms(1) show ?thesis
      by (simp add: has_link_collision_default_def has_link_collision_def
          collision_relevant_spec_def)
  qed
  with Some show ?thesis by simp
qed

theorem C7_collision_relevance_witness:
  "has_link_collision_default arm_tree ''arm_link'' = Inr True \<and>
   has_link_collision_default arm_tree ''base_link'' = Inr False \<and>
   has_link_collision_default speck_tree ''arm_link'' = Inr False"
proof -
  have a: "map_of (link_map (urdf_robot arm_tree)) ''arm_link'' = Some arm_link"
    by (simp add: arm_tree_robot)
  have a': "\<forall>col. collision arm_link = Some col \<longrightarrow> parsed_geometry (c_geometry col)"
    by (simp add: arm_link_def)
  have c: "map_of (link_map (urdf_robot arm_tree)) ''base_link'' = Some base_link"
    by (simp add: arm_tree_robot)
  have c': "\<forall>col. collision base_link = Some col \<longrightarrow> parsed_geometry (c_geometry col)"
    by (simp add: base_link_def)
  have r1: "collision_relevant_spec arm_link (1 / 10 ^ 6) (1 / 10 ^ 4)"
    by (simp add: collision_relevant_spec_def arm_link_def)
  have r3: "collision base_link = None"
    by (simp add: base_link_def)
  have speck: "has_link_collision_default speck_tree ''arm_link'' = Inr False"
    by (simp add: has_link_collision_default_def has_link_collision_def speck_tree_link_map
        arm_link_def cube_volume_def cube_surface_def)
  from C7_collision_relevance [OF a a'] r1
  have x: "has_link_collision_default arm_tree ''arm_link'' = Inr True"
    by simp
  from C7_collision_relevance [OF c c'] r3
  have y: "has_link_collision_default arm_tree ''base_link'' = Inr False"
    by blast
  show ?thesis
    using x y speck by simp
qed

subsection \<open>Construction from a mesh body descriptor\<close>





subsection \<open>Parsed robots\<close>

lemma link_elems_append [simp]: "link_elems (es @ es') = link_elems es @ link_elems es'"
  by (induction es rule: link_elems.induct) auto

lemma joint_elems_append [simp]: "joint_elems (es @ es') = joint_elems es @ joint_elems es'"
  by (induction es rule: joint_elems.induct) auto

lemma link_elems_LinkElem [simp]: "link_elems (map LinkElem ls) = ls"
  by (induction ls) auto

lemma link_elems_JointElem [simp]: "link_elems (map JointElem js) = []"
  by (induction js) auto

lemma joint_elems_LinkElem [simp]: "joint_elems (map LinkElem ls) = []"
  by (induction ls) auto

lemma joint_elems_JointElem [simp]: "joint_elems (map JointElem js) = js"
  by (induction js) auto

lemma LinkElem_in_set: "LinkElem l \<in> set es \<longleftrightarrow> l \<in> set (link_elems es)"
  by (induction es rule: link_elems.induct) auto

lemma JointElem_in_set: "JointElem j \<in> set es \<longleftrightarrow> j \<in> set (joint_elems es)"
  by (induction es rule: joint_elems.induct) auto

lemma update_fresh: "k \<notin> fst ` set al \<Longrightarrow> AList.update k v al = al @ [(k, v)]"
  by (induction al) auto

lemma parse_snoc_link:
  "from_xml_string (n, es @ [LinkElem l]) = add_link l (from_xml_string (n, es))"
  by (simp add: from_xml_string_def)

lemma parse_snoc_joint:
  "from_xml_string (n, es @ [JointElem j]) = add_joint j (from_xml_string (n, es))"
  by (simp add: from_xml_string_def)

lemma parse_Nil: "from_xml_string (n, []) = Robot_init n"
  by (simp add: from_xml_string_def)

lemma parse_name: "name (from_xml_string (n, es)) = n"
proof (induction es rule: rev_induct)
  case Nil
  show ?case by (simp add: parse_Nil Robot_init_def)
next
  case (snoc e es)
  then show ?case
    by (cases e) (simp_all add: parse_snoc_link parse_snoc_joint add_link_def add_joint_def)
qed

lemma parse_aggregate_order: "aggregate_order (from_xml_string (n, es)) = es"
proof (induction es rule: rev_induct)
  case Nil
  show ?case by (simp add: parse_Nil Robot_init_def)
next
  case (snoc e es)
  then show ?case
    by (cases e) (simp_all add: parse_snoc_link parse_snoc_joint add_link_def add_joint_def)
qed

lemma parse_links: "links (from_xml_string (n, es)) = link_elems es"
proof (induction es rule: rev_induct)
  case Nil
  show ?case by (simp add: parse_Nil Robot_init_def)
next
  case (snoc e es)
  then show ?case
    by (cases e) (simp_all add: parse_snoc_link parse_snoc_joint add_link_def add_joint_def)
qed

lemma parse_joints: "joints (from_xml_string (n, es)) = joint_elems es"
proof (induction es rule: rev_induct)
  case Nil
  show ?case by (simp add: parse_Nil Robot_init_def)
next
  case (snoc e es)
  then show ?case
    by (cases e) (simp_all add: parse_snoc_link parse_snoc_joint add_link_def add_joint_def)
qed

lemma parse_link_keys:
  "distinct (map fst (link_map (from_xml_string (n, es)))) \<and>
   set (map fst (link_map (from_xml_string (n, es)))) = l_name ` set (link_elems es)"
proof (induction es rule: rev_induct)
  case Nil
  show ?case by (simp add: parse_Nil Robot_init_def)
next
  case (snoc e es)
  then show ?case
    by (cases e)
      (auto simp add: parse_snoc_link parse_snoc_joint add_link_def add_joint_def
        distinct_update dom_update)
qed

lemma parse_joint_keys:
  "distinct (map fst (joint_map (from_xml_string (n, es)))) \<and>
   set (map fst (joint_map (from_xml_string (n, es)))) = j_name ` set (joint_elems es)"
proof (induction es rule: rev_induct)
  case Nil
  show ?case by (simp add: parse_Nil Robot_init_def)
next
  case (snoc e es)
  then show ?case
    by (cases e)
      (auto simp add: parse_snoc_link parse_snoc_joint add_link_def add_joint_def
        distinct_update dom_update)
qed

lemma parse_parent_keys:
  "set (map fst (parent_map (from_xml_string (n, es)))) = child ` set (joint_elems es)"
proof (induction es rule: rev_induct)
  case Nil
  show ?case by (simp add: parse_Nil Robot_init_def)
next
  case (snoc e es)
  then show ?case
    by (cases e)
      (auto simp add: parse_snoc_link parse_snoc_joint add_link_def add_joint_def dom_update)
qed

lemma parse_link_map:
  "distinct (map l_name (link_elems es)) \<Longrightarrow>
   link_map (from_xml_string (n, es)) = map (\<lambda>l. (l_name l, l)) (link_elems es)"
proof (induction es rule: rev_induct)
  case Nil
  show ?case by (simp add: parse_Nil Robot_init_def)
next
  case (snoc e es)
  then show ?case
    by (cases e)
      (auto simp add: parse_snoc_link parse_snoc_joint add_link_def add_joint_def
        update_fresh image_image)
qed

lemma parse_joint_map:
  "distinct (map j_name (joint_elems es)) \<Longrightarrow>
   joint_map (from_xml_string (n, es)) = map (\<lambda>j. (j_name j, j)) (joint_elems es)"
proof (induction es rule: rev_induct)
  case Nil
  show ?case by (simp add: parse_Nil Robot_init_def)
next
  case (snoc e es)
  then show ?case
    by (cases e)
      (auto simp add: parse_snoc_link parse_snoc_joint add_link_def add_joint_def
        update_fresh image_image)
qed

lemma parse_child_map:
  "(case map_of (child_map (from_xml_string (n, es))) p of None \<Rightarrow> [] | Some cs \<Rightarrow> cs) =
     map (\<lambda>j. (j_name j, child j)) (filter (\<lambda>j. parent j = p) (joint_elems es))"
proof (induction es rule: rev_induct)
  case Nil
  show ?case by (simp add: parse_Nil Robot_init_def)
next
  case (snoc e es)
  show ?case
  proof (cases e)
    case (LinkElem l)
    with snoc show ?thesis by (simp add: parse_snoc_link add_link_def)
  next
    case (JointElem j)
    with snoc show ?thesis
      by (cases "map_of (child_map (from_xml_string (n, es))) (parent j)")
        (auto simp add: parse_snoc_joint add_joint_def update_conv')
  qed
qed

lemma parsed_parse: "parsed (from_xml_string doc)"
  by (cases doc) (simp add: parsed_def to_xml_string_def parse_name parse_aggregate_order)

lemma parsedD:
  assumes "parsed r"
  shows "r = from_xml_string (name r, aggregate_order r)"
  using assms by (simp add: parsed_def to_xml_string_def)

lemma parsed_links: "parsed r \<Longrightarrow> links r = link_elems (aggregate_order r)"
  using parse_links [of "name r" "aggregate_order r"] parsedD [of r] by simp

lemma parsed_joints: "parsed r \<Longrightarrow> joints r = joint_elems (aggregate_order r)"
  using parse_joints [of "name r" "aggregate_order r"] parsedD [of r] by simp

lemma parsed_link_map:
  "parsed r \<Longrightarrow> distinct (map l_name (links r)) \<Longrightarrow>
   link_map r = map (\<lambda>l. (l_name l, l)) (links r)"
  using parse_link_map [of "aggregate_order r" "name r"] parsedD [of r] parsed_links [of r]
  by simp

lemma parsed_joint_map:
  "parsed r \<Longrightarrow> distinct (map j_name (joints r)) \<Longrightarrow>
   joint_map r = map (\<lambda>j. (j_name j, j)) (joints r)"
  using parse_joint_map [of "aggregate_order r" "name r"] parsedD [of r] parsed_joints [of r]
  by simp

lemma parsed_parent_keys: "parsed r \<Longrightarrow> set (map fst (parent_map r)) = child ` set (joints r)"
  using parse_parent_keys [of "name r" "aggregate_order r"] parsedD [of r] parsed_joints [of r]
  by simp

lemma parsed_child_map:
  "parsed r \<Longrightarrow>
   (case map_of (child_map r) p of None \<Rightarrow> [] | Some cs \<Rightarrow> cs) =
     map (\<lambda>j. (j_name j, child j)) (filter (\<lambda>j. parent j = p) (joints r))"
  using parse_child_map [of "name r" "aggregate_order r" p] parsedD [of r] parsed_joints [of r]
  by simp

lemma parsed_link_keys:
  "parsed r \<Longrightarrow> distinct (map fst (link_map r)) \<and>
     set (map fst (link_map r)) = l_name ` set (links r)"
  using parse_link_keys [of "name r" "aggregate_order r"] parsedD [of r] parsed_links [of r]
  by simp

lemma parsed_joint_keys:
  "parsed r \<Longrightarrow> distinct (map fst (joint_map r)) \<and>
     set (map fst (joint_map r)) = j_name ` set (joints r)"
  using parse_joint_keys [of "name r" "aggregate_order r"] parsedD [of r] parsed_joints [of r]
  by simp

subsection \<open>The root\<close>

lemma get_root_loop_Some:
  "get_root_loop ks pm (Some x) =
     (if filter (\<lambda>k. map_of pm k = None) ks = [] then Inr (Some x) else Inl AssertionError)"
  by (induction ks) auto

lemma get_root_loop_None:
  "get_root_loop ks pm None =
     (case filter (\<lambda>k. map_of pm k = None) ks of
        [] \<Rightarrow> Inr None
      | [k] \<Rightarrow> Inr (Some k)
      | _ \<Rightarrow> Inl AssertionError)"
proof (induction ks)
  case Nil
  show ?case by simp
next
  case (Cons k ks)
  show ?case
  proof (cases "map_of pm k = None")
    case True
    then show ?thesis
      by (cases "filter (\<lambda>k. map_of pm k = None) ks") (simp_all add: get_root_loop_Some)
  next
    case False
    with Cons show ?thesis by (simp del: not_None_eq)
  qed
qed

lemma distinct_singleton_set: "distinct xs \<Longrightarrow> set xs = {x} \<Longrightarrow> xs = [x]"
proof (cases xs)
  case Nil
  assume "set xs = {x}"
  with Nil show ?thesis by simp
next
  case (Cons y ys)
  assume d: "distinct xs" and s: "set xs = {x}"
  from Cons d s have "set ys \<subseteq> {x}" "y \<notin> set ys" "y = x" by auto
  then have "ys = []" by (cases ys) auto
  with Cons \<open>y = x\<close> show ?thesis by simp
qed

lemma map_of_None_keys: "map_of pm k = None \<longleftrightarrow> k \<notin> set (map fst pm)"
  by (simp add: map_of_eq_None_iff)

text \<open>
  The root of a parsed robot is the link that is the child of no joint, when there is
  one such link.
\<close>

lemma parsed_get_root:
  assumes p: "parsed r"
  shows "Robot_get_root r = Inr rt \<longleftrightarrow>
           {n \<in> l_name ` set (links r). n \<notin> child ` set (joints r)} = {rt}"
proof -
  let ?ks = "map fst (link_map r)"
  let ?f = "filter (\<lambda>k. map_of (parent_map r) k = None) ?ks"
  from p have d: "distinct ?ks" and s: "set ?ks = l_name ` set (links r)"
    using parsed_link_keys [of r] by simp_all
  from p have pk: "set (map fst (parent_map r)) = child ` set (joints r)"
    by (rule parsed_parent_keys)
  have fs: "set ?f = {n \<in> l_name ` set (links r). n \<notin> child ` set (joints r)}"
    using s pk by (auto simp add: map_of_None_keys)
  have fd: "distinct ?f" using d by simp
  show ?thesis
  proof
    assume a: "Robot_get_root r = Inr rt"
    then have "?f = [rt]"
      by (auto simp add: Robot_get_root_def get_root_loop_None
          split: list.splits sum.splits option.splits)
    with fs show "{n \<in> l_name ` set (links r). n \<notin> child ` set (joints r)} = {rt}"
      by (metis list.simps(15) empty_set)
  next
    assume "{n \<in> l_name ` set (links r). n \<notin> child ` set (joints r)} = {rt}"
    with fs have "set ?f = {rt}" by simp
    with fd have "?f = [rt]" by (rule distinct_singleton_set)
    then show "Robot_get_root r = Inr rt"
      by (simp add: Robot_get_root_def get_root_loop_None)
  qed
qed

subsection \<open>Lookups in a valid tree\<close>

lemma map_of_named:
  "distinct (map f xs) \<Longrightarrow> x \<in> set xs \<Longrightarrow> map_of (map (\<lambda>x. (f x, x)) xs) (f x) = Some x"
  by (induction xs) (auto simp add: rev_image_eqI)

lemma map_of_named_Some:
  "map_of (map (\<lambda>x. (f x, x)) xs) k = Some x \<Longrightarrow> x \<in> set xs \<and> f x = k"
  by (induction xs) (auto split: if_splits)

lemma map_of_named_None:
  "map_of (map (\<lambda>x. (f x, x)) xs) k = None \<longleftrightarrow> k \<notin> f ` set xs"
  by (induction xs) auto

lemma valid_joint_lookup:
  assumes "valid_tree self" and "j \<in> set (joints (urdf_robot self))"
  shows "map_of (joint_map (urdf_robot self)) (j_name j) = Some j"
  using assms by (simp add: valid_tree_def parsed_joint_map map_of_named)

lemma valid_joint_lookup_Some:
  assumes "valid_tree self" and "map_of (joint_map (urdf_robot self)) n = Some j"
  shows "j \<in> set (joints (urdf_robot self)) \<and> j_name j = n"
  using assms map_of_named_Some [of j_name "joints (urdf_robot self)" n j]
  by (simp add: valid_tree_def parsed_joint_map)

lemma valid_joint_lookup_None:
  assumes "valid_tree self"
  shows "map_of (joint_map (urdf_robot self)) n = None \<longleftrightarrow>
           n \<notin> j_name ` set (joints (urdf_robot self))"
  using assms by (simp add: valid_tree_def parsed_joint_map map_of_named_None)

lemma valid_link_lookup:
  assumes "valid_tree self" and "l \<in> set (links (urdf_robot self))"
  shows "map_of (link_map (urdf_robot self)) (l_name l) = Some l"
  using assms by (simp add: valid_tree_def parsed_link_map map_of_named)

lemma valid_link_lookup_Some:
  assumes "valid_tree self" and "map_of (link_map (urdf_robot self)) n = Some l"
  shows "l \<in> set (links (urdf_robot self)) \<and> l_name l = n"
  using assms map_of_named_Some [of l_name "links (urdf_robot self)" n l]
  by (simp add: valid_tree_def parsed_link_map)

lemma valid_link_names:
  assumes "valid_tree self"
  shows "get_link_names self = map l_name (links (urdf_robot self))"
  using assms by (simp add: valid_tree_def get_link_names_def parsed_link_map comp_def)

lemma valid_joint_names:
  assumes "valid_tree self"
  shows "get_joint_names self = map j_name (joints (urdf_robot self))"
  using assms by (simp add: valid_tree_def get_joint_names_def parsed_joint_map comp_def)

lemma valid_child_map:
  assumes "valid_tree self"
  shows "(case map_of (child_map (urdf_robot self)) p of None \<Rightarrow> [] | Some cs \<Rightarrow> cs) =
           map (\<lambda>j. (j_name j, child j))
             (filter (\<lambda>j. parent j = p) (joints (urdf_robot self)))"
  using assms by (simp add: valid_tree_def parsed_child_map)

lemma valid_child_joints:
  assumes v: "valid_tree self"
  shows "set ks \<subseteq> set (joints (urdf_robot self)) \<Longrightarrow>
           child_joints self (map (\<lambda>j. (j_name j, child j)) ks) = Inr ks"
  by (induction ks) (simp_all add: get_urdf_joint_def valid_joint_lookup [OF v])

subsection \<open>Reachability\<close>

lemma below_unfold:
  "below self c =
     insert c (\<Union>j \<in> {j \<in> set (joints (urdf_robot self)). parent j = c}. below self (child j))"
proof -
  have "x \<in> below self c \<longleftrightarrow>
          x = c \<or> (\<exists>j \<in> set (joints (urdf_robot self)). parent j = c \<and> x \<in> below self (child j))"
    for x
  proof
    assume "x \<in> below self c"
    then have "(c, x) \<in> (edges self)\<^sup>*" by (simp add: below_def)
    then show "x = c \<or>
        (\<exists>j \<in> set (joints (urdf_robot self)). parent j = c \<and> x \<in> below self (child j))"
    proof (cases rule: converse_rtranclE)
      case base
      then show ?thesis by simp
    next
      case (step y)
      then show ?thesis by (auto simp add: edges_def below_def)
    qed
  next
    assume "x = c \<or>
        (\<exists>j \<in> set (joints (urdf_robot self)). parent j = c \<and> x \<in> below self (child j))"
    then show "x \<in> below self c"
    proof
      assume "x = c"
      then show ?thesis by (simp add: below_def)
    next
      assume "\<exists>j \<in> set (joints (urdf_robot self)). parent j = c \<and> x \<in> below self (child j)"
      then obtain j where j: "j \<in> set (joints (urdf_robot self))" "parent j = c"
        "(child j, x) \<in> (edges self)\<^sup>*"
        by (auto simp add: below_def)
      from j have "(c, child j) \<in> edges self" by (auto simp add: edges_def)
      with j(3) show ?thesis by (auto simp add: below_def intro: converse_rtrancl_into_rtrancl)
    qed
  qed
  then show ?thesis by auto
qed

lemma below_self: "c \<in> below self c"
  by (simp add: below_def)

lemma rank_below:
  assumes m: "\<forall>j \<in> set (joints (urdf_robot self)). m (child j) < m (parent j)"
    and x: "(c, x) \<in> (edges self)\<^sup>*"
  shows "m x \<le> (m c :: nat)"
  using x
proof (induction rule: rtrancl_induct)
  case base
  show ?case by simp
next
  case (step y z)
  from step(2) m have "m z < m y" by (auto simp add: edges_def)
  with step(3) show ?case by simp
qed

lemma valid_joint_name_inj:
  assumes "valid_tree self" and "j \<in> set (joints (urdf_robot self))"
    and "k \<in> set (joints (urdf_robot self))" and "j_name j = j_name k"
  shows "j = k"
proof -
  have "Some j = map_of (joint_map (urdf_robot self)) (j_name j)"
    using valid_joint_lookup [OF assms(1,2)] by (rule sym)
  also have "\<dots> = map_of (joint_map (urdf_robot self)) (j_name k)"
    by (simp only: assms(4))
  also have "\<dots> = Some k"
    by (rule valid_joint_lookup [OF assms(1,3)])
  finally show ?thesis by (simp only: option.inject)
qed

lemma valid_link_name_inj:
  assumes "valid_tree self" and "l \<in> set (links (urdf_robot self))"
    and "k \<in> set (links (urdf_robot self))" and "l_name l = l_name k"
  shows "l = k"
proof -
  have "Some l = map_of (link_map (urdf_robot self)) (l_name l)"
    using valid_link_lookup [OF assms(1,2)] by (rule sym)
  also have "\<dots> = map_of (link_map (urdf_robot self)) (l_name k)"
    by (simp only: assms(4))
  also have "\<dots> = Some k"
    by (rule valid_link_lookup [OF assms(1,3)])
  finally show ?thesis by (simp only: option.inject)
qed

lemma queue_below_Nil: "queue_below self [] = {}"
  by (simp add: queue_below_def)

lemma queue_below_append:
  "queue_below self (q @ q') = queue_below self q \<union> queue_below self q'"
  by (auto simp add: queue_below_def)

lemma queue_below_single:
  assumes "valid_tree self" and "k \<in> set (joints (urdf_robot self))"
  shows "queue_below self [j_name k] = below self (child k)"
  using assms valid_joint_name_inj [OF assms(1) _ assms(2)]
  by (auto simp add: queue_below_def)

lemma queue_below_names:
  assumes "valid_tree self" and "set ks \<subseteq> set (joints (urdf_robot self))"
  shows "queue_below self (map j_name ks) = (\<Union>j \<in> set ks. below self (child j))"
proof -
  have "{j \<in> set (joints (urdf_robot self)). j_name j \<in> set (map j_name ks)} = set ks"
    using assms(2) valid_joint_name_inj [OF assms(1)] by auto
  then show ?thesis by (simp add: queue_below_def)
qed

lemma mset_less_step: "\<forall>k \<in># K. k < (a :: nat) \<Longrightarrow> I + K < add_mset a I"
  using one_step_implies_multp [of "{#a#}" K "(<)" I] by (simp add: less_multiset_def)


subsection \<open>The work-list loop on a valid tree\<close>

lemma valid_child_link:
  assumes "valid_tree self" and "k \<in> set (joints (urdf_robot self))"
  shows "\<exists>l \<in> set (links (urdf_robot self)). l_name l = child k"
proof -
  from assms(1) have "\<forall>j \<in> set (joints (urdf_robot self)).
      child j \<in> l_name ` set (links (urdf_robot self))"
    unfolding valid_tree_def by blast
  with assms(2) have "child k \<in> l_name ` set (links (urdf_robot self))" by blast
  then show ?thesis by (metis imageE)
qed

lemma sub_tree_loop_Nil: "sub_tree_loop self [] tls tjs = Some (Inr (tls, tjs))"
  by (subst sub_tree_loop.simps) simp

lemma sub_tree_loop_step:
  assumes v: "valid_tree self"
    and k0: "k0 \<in> set (joints (urdf_robot self))"
    and l0: "l0 \<in> set (links (urdf_robot self))" "l_name l0 = child k0"
  shows "sub_tree_loop self (j_name k0 # rest) tls tjs =
           sub_tree_loop self
             (rest @ map j_name (filter (\<lambda>j. parent j = child k0) (joints (urdf_robot self))))
             (tls @ [l0])
             (tjs @ filter (\<lambda>j. parent j = child k0) (joints (urdf_robot self)))"
proof -
  let ?R = "urdf_robot self"
  let ?cs = "filter (\<lambda>j. parent j = child k0) (joints ?R)"
  have jl: "map_of (joint_map ?R) (j_name k0) = Some k0"
    by (rule valid_joint_lookup [OF v k0])
  from valid_link_lookup [OF v l0(1)] l0(2)
  have ll: "get_urdf_link self (child k0) = Inr l0" by (simp add: get_urdf_link_def)
  have cm: "(case map_of (child_map ?R) (child k0) of None \<Rightarrow> [] | Some cs \<Rightarrow> cs) =
              map (\<lambda>j. (j_name j, child j)) ?cs"
    by (rule valid_child_map [OF v])
  have cj: "child_joints self (map (\<lambda>j. (j_name j, child j)) ?cs) = Inr ?cs"
    by (rule valid_child_joints [OF v]) simp
  have mf: "map fst (map (\<lambda>j. (j_name j, child j)) ?cs) = map j_name ?cs"
    by (simp add: comp_def)
  show ?thesis
    apply (subst sub_tree_loop.simps)
    apply (simp only: list.case jl option.case cm cj sum.case ll mf)
    done
qed

lemma queue_below_step:
  assumes v: "valid_tree self" and k0: "k0 \<in> set (joints (urdf_robot self))"
  shows "queue_below self (j_name k0 # rest) =
           insert (child k0)
             (queue_below self
                (rest @ map j_name
                   (filter (\<lambda>j. parent j = child k0) (joints (urdf_robot self)))))"
proof -
  let ?cs = "filter (\<lambda>j. parent j = child k0) (joints (urdf_robot self))"
  have 1: "queue_below self (j_name k0 # rest) =
             below self (child k0) \<union> queue_below self rest"
    using queue_below_append [of self "[j_name k0]" rest] queue_below_single [OF v k0]
    by simp
  have 2: "queue_below self (map j_name ?cs) = (\<Union>j \<in> set ?cs. below self (child j))"
    by (rule queue_below_names [OF v]) simp
  have 3: "below self (child k0) = insert (child k0) (\<Union>j \<in> set ?cs. below self (child j))"
    using below_unfold [of self "child k0"] by simp
  have 4: "queue_below self (rest @ map j_name ?cs) =
             queue_below self rest \<union> (\<Union>j \<in> set ?cs. below self (child j))"
    by (simp only: queue_below_append 2)
  show ?thesis
    unfolding 1 3 4 by blast
qed

lemma queue_rank_step:
  assumes v: "valid_tree self" and k0: "k0 \<in> set (joints (urdf_robot self))"
    and m: "\<forall>j \<in> set (joints (urdf_robot self)). m (child j) < (m (parent j) :: nat)"
  shows "mset (map (\<lambda>n. m (child (the (map_of (joint_map (urdf_robot self)) n))))
                 (rest @ map j_name
                    (filter (\<lambda>j. parent j = child k0) (joints (urdf_robot self)))))
           < mset (map (\<lambda>n. m (child (the (map_of (joint_map (urdf_robot self)) n))))
                 (j_name k0 # rest))"
proof -
  let ?R = "urdf_robot self"
  let ?mu = "\<lambda>n. m (child (the (map_of (joint_map ?R) n)))"
  let ?cs = "filter (\<lambda>j. parent j = child k0) (joints ?R)"
  have mu: "?mu (j_name j) = m (child j)" if "j \<in> set (joints ?R)" for j
    by (simp only: valid_joint_lookup [OF v that] option.sel)
  have "?mu (j_name j) < ?mu (j_name k0)" if "j \<in> set ?cs" for j
  proof -
    from that have j: "j \<in> set (joints ?R)" and p: "parent j = child k0" by simp_all
    from m j have "m (child j) < m (parent j)" by blast
    then have "m (child j) < m (child k0)" by (simp only: p)
    then show ?thesis by (simp only: mu [OF j] mu [OF k0])
  qed
  then have "\<forall>x \<in># mset (map ?mu (map j_name ?cs)). x < ?mu (j_name k0)"
    by (simp only: set_mset_mset set_map) blast
  from mset_less_step [OF this, of "mset (map ?mu rest)"]
  show ?thesis by (simp only: map_append mset_append list.map mset.simps)
qed

lemma sub_tree_loop_valid:
  assumes v: "valid_tree self"
    and m: "\<forall>j \<in> set (joints (urdf_robot self)). m (child j) < (m (parent j) :: nat)"
  shows "set q \<subseteq> j_name ` set (joints (urdf_robot self)) \<Longrightarrow>
     \<exists>ls js. sub_tree_loop self q tls tjs = Some (Inr (tls @ ls, tjs @ js)) \<and>
        set ls = {l \<in> set (links (urdf_robot self)). l_name l \<in> queue_below self q} \<and>
        set js = {k \<in> set (joints (urdf_robot self)). parent k \<in> queue_below self q}"
proof (induction "mset (map (\<lambda>n. m (child (the (map_of (joint_map (urdf_robot self)) n)))) q)"
    arbitrary: q tls tjs rule: less_induct)
  case less
  let ?R = "urdf_robot self"
  show ?case
  proof (cases q)
    case Nil
    have "sub_tree_loop self q tls tjs = Some (Inr (tls @ [], tjs @ []))"
      unfolding Nil by (simp only: sub_tree_loop_Nil append_Nil2)
    moreover have "set [] = {l \<in> set (links ?R). l_name l \<in> queue_below self q}"
      unfolding Nil queue_below_Nil by simp
    moreover have "set [] = {k \<in> set (joints ?R). parent k \<in> queue_below self q}"
      unfolding Nil queue_below_Nil by simp
    ultimately show ?thesis by blast
  next
    case (Cons n rest)
    from less.prems Cons have "n \<in> j_name ` set (joints ?R)" by simp
    then obtain k0 where k0: "k0 \<in> set (joints ?R)" and n: "n = j_name k0" by blast
    let ?cs = "filter (\<lambda>j. parent j = child k0) (joints ?R)"
    let ?q' = "rest @ map j_name ?cs"
    from valid_child_link [OF v k0] obtain l0 where
      l0: "l0 \<in> set (links ?R)" "l_name l0 = child k0" by blast
    have q: "q = j_name k0 # rest" by (simp only: Cons n)
    have step: "sub_tree_loop self q tls tjs = sub_tree_loop self ?q' (tls @ [l0]) (tjs @ ?cs)"
      unfolding q by (rule sub_tree_loop_step [OF v k0 l0])
    have lt: "mset (map (\<lambda>n. m (child (the (map_of (joint_map ?R) n)))) ?q')
                < mset (map (\<lambda>n. m (child (the (map_of (joint_map ?R) n)))) q)"
      unfolding q by (rule queue_rank_step [OF v k0 m])
    have "set rest \<subseteq> j_name ` set (joints ?R)" using less.prems Cons by simp
    moreover have "set (map j_name ?cs) \<subseteq> j_name ` set (joints ?R)" by auto
    ultimately have sub: "set ?q' \<subseteq> j_name ` set (joints ?R)" by simp
    from less.hyps [OF lt sub, of "tls @ [l0]" "tjs @ ?cs"]
    obtain ls' js' where
      r: "sub_tree_loop self ?q' (tls @ [l0]) (tjs @ ?cs) =
            Some (Inr ((tls @ [l0]) @ ls', (tjs @ ?cs) @ js'))"
      and ls': "set ls' = {l \<in> set (links ?R). l_name l \<in> queue_below self ?q'}"
      and js': "set js' = {k \<in> set (joints ?R). parent k \<in> queue_below self ?q'}"
      by blast
    have qb: "queue_below self q = insert (child k0) (queue_below self ?q')"
      unfolding q by (rule queue_below_step [OF v k0])
    have l0u: "l = l0" if "l \<in> set (links ?R)" "l_name l = child k0" for l
      by (rule valid_link_name_inj [OF v that(1) l0(1)]) (simp only: that(2) l0(2))
    have a: "set (l0 # ls') = {l \<in> set (links ?R). l_name l \<in> queue_below self q}"
    proof (rule set_eqI)
      fix l
      show "l \<in> set (l0 # ls') \<longleftrightarrow>
              l \<in> {l \<in> set (links ?R). l_name l \<in> queue_below self q}"
        unfolding qb using ls' l0 l0u [of l] by auto
    qed
    have b: "set (?cs @ js') = {k \<in> set (joints ?R). parent k \<in> queue_below self q}"
      unfolding qb using js' by auto
    from step r have "sub_tree_loop self q tls tjs = Some (Inr (tls @ l0 # ls', tjs @ ?cs @ js'))"
      by simp
    with a b show ?thesis by blast
  qed
qed

subsection \<open>Sub-tree extraction on a valid tree\<close>

lemma fold_add_link: "fold add_aggregate (map LinkElem ls) r = fold add_link ls r"
  by (induction ls arbitrary: r) simp_all

lemma fold_add_joint: "fold add_aggregate (map JointElem js) r = fold add_joint js r"
  by (induction js arbitrary: r) simp_all

lemma from_parts_parse:
  "from_parts n ls js = URDFObject_init (n, map LinkElem ls @ map JointElem js)"
proof -
  have "fold add_joint js (fold add_link ls (Robot_init n)) =
          from_xml_string (n, map LinkElem ls @ map JointElem js)"
    by (simp add: from_xml_string_def fold_add_link fold_add_joint)
  then show ?thesis
    by (simp add: from_parts_def to_xml_string_def parse_name parse_aggregate_order)
qed

lemma from_parts_robot:
  "urdf_robot (from_parts n ls js) = from_xml_string (n, map LinkElem ls @ map JointElem js)"
  by (simp add: from_parts_parse URDFObject_init_def)

lemma from_parts_links: "links (urdf_robot (from_parts n ls js)) = ls"
  by (simp add: from_parts_robot parse_links)

lemma from_parts_joints: "joints (urdf_robot (from_parts n ls js)) = js"
  by (simp add: from_parts_robot parse_joints)

lemma from_parts_standalone:
  "URDFObject_init (get_urdf (from_parts n ls js)) = from_parts n ls js"
  by (simp add: from_parts_parse URDFObject_init_def get_urdf_def to_xml_string_def parse_name
      parse_aggregate_order)

lemma below_links:
  assumes v: "valid_tree self" and k: "k \<in> set (joints (urdf_robot self))"
  shows "below self (child k) \<subseteq> l_name ` set (links (urdf_robot self))"
proof
  fix x
  assume "x \<in> below self (child k)"
  then have "(child k, x) \<in> (edges self)\<^sup>*" by (simp add: below_def)
  then show "x \<in> l_name ` set (links (urdf_robot self))"
  proof (induction rule: rtrancl_induct)
    case base
    from valid_child_link [OF v k] show ?case by force
  next
    case (step y z)
    from step(2) obtain j where "j \<in> set (joints (urdf_robot self))" "z = child j"
      by (auto simp add: edges_def)
    with valid_child_link [OF v this(1)] show ?case by force
  qed
qed

lemma below_children:
  assumes "x \<in> below self c" and "x \<noteq> c"
  shows "\<exists>k \<in> set (joints (urdf_robot self)). parent k \<in> below self c \<and> child k = x"
proof -
  from assms(1) have "(c, x) \<in> (edges self)\<^sup>*" by (simp add: below_def)
  then show ?thesis
  proof (cases rule: rtranclE)
    case base
    with assms(2) show ?thesis by simp
  next
    case (step y)
    from step(2) obtain k where "k \<in> set (joints (urdf_robot self))" "parent k = y" "child k = x"
      by (auto simp add: edges_def)
    with step(1) show ?thesis by (auto simp add: below_def)
  qed
qed

lemma below_not_child:
  assumes m: "\<forall>j \<in> set (joints (urdf_robot self)). m (child j) < (m (parent j) :: nat)"
    and k: "k \<in> set (joints (urdf_robot self))" and p: "parent k \<in> below self c"
  shows "child k \<noteq> c"
proof
  assume e: "child k = c"
  from p have "(c, parent k) \<in> (edges self)\<^sup>*" by (simp add: below_def)
  from rank_below [OF m this] have "m (parent k) \<le> m c" .
  moreover from m k have "m (child k) < m (parent k)" by blast
  ultimately show False using e by simp
qed

lemma sub_tree_valid:
  assumes v: "valid_tree self" and j: "j \<in> set (joints (urdf_robot self))"
  shows "\<exists>ls js.
           get_sub_tree_at_joint self (j_name j) = Some (Inr (from_parts (j_name j) ls js)) \<and>
           set ls = {l \<in> set (links (urdf_robot self)). l_name l \<in> below self (child j)} \<and>
           set js = {k \<in> set (joints (urdf_robot self)). parent k \<in> below self (child j)}"
proof -
  from v obtain m :: "string \<Rightarrow> nat" where
    m: "\<forall>j \<in> set (joints (urdf_robot self)). m (child j) < m (parent j)"
    unfolding valid_tree_def by blast
  from j have "set [j_name j] \<subseteq> j_name ` set (joints (urdf_robot self))" by simp
  from sub_tree_loop_valid [OF v m this, of "[]" "[]"]
  obtain ls js where
    r: "sub_tree_loop self [j_name j] [] [] = Some (Inr (ls, js))"
    and ls: "set ls = {l \<in> set (links (urdf_robot self)). l_name l \<in> queue_below self [j_name j]}"
    and js: "set js = {k \<in> set (joints (urdf_robot self)). parent k \<in> queue_below self [j_name j]}"
    by auto
  from r have "get_sub_tree_at_joint self (j_name j) = Some (Inr (from_parts (j_name j) ls js))"
    by (simp add: get_sub_tree_at_joint_def)
  with ls js show ?thesis
    unfolding queue_below_single [OF v j] by blast
qed

lemma sub_tree_root:
  assumes v: "valid_tree self" and j: "j \<in> set (joints (urdf_robot self))"
    and ls: "set ls = {l \<in> set (links (urdf_robot self)). l_name l \<in> below self (child j)}"
    and js: "set js = {k \<in> set (joints (urdf_robot self)). parent k \<in> below self (child j)}"
  shows "get_root (from_parts n ls js) = Inr (child j)"
proof -
  from v obtain m :: "string \<Rightarrow> nat" where
    m: "\<forall>j \<in> set (joints (urdf_robot self)). m (child j) < m (parent j)"
    unfolding valid_tree_def by blast
  let ?B = "below self (child j)"
  have names: "l_name ` set ls = ?B"
    using ls below_links [OF v j] by auto
  have 1: "child j \<notin> child ` set js"
  proof
    assume "child j \<in> child ` set js"
    then obtain k where k: "k \<in> set js" and e: "child k = child j" by force
    from k js have "k \<in> set (joints (urdf_robot self))" "parent k \<in> ?B" by simp_all
    from below_not_child [OF m this] e show False by simp
  qed
  have 2: "x \<in> child ` set js" if "x \<in> ?B" "x \<noteq> child j" for x
    using below_children [OF that] js by auto
  have 3: "child j \<in> ?B" by (rule below_self)
  have "{x \<in> l_name ` set ls. x \<notin> child ` set js} = {child j}"
  proof (rule set_eqI)
    fix x
    show "x \<in> {x \<in> l_name ` set ls. x \<notin> child ` set js} \<longleftrightarrow> x \<in> {child j}"
    proof (cases "x = child j")
      case True
      with 1 3 show ?thesis by (simp add: names)
    next
      case False
      with 2 [of x] show ?thesis by (simp add: names)
    qed
  qed
  then have "{x \<in> l_name ` set (links (urdf_robot (from_parts n ls js))).
               x \<notin> child ` set (joints (urdf_robot (from_parts n ls js)))} = {child j}"
    by (simp only: from_parts_links from_parts_joints)
  moreover have "parsed (urdf_robot (from_parts n ls js))"
    by (simp only: from_parts_robot parsed_parse)
  ultimately show ?thesis
    by (simp only: get_root_def parsed_get_root)
qed

lemma from_parts_link_names:
  "distinct (get_link_names (from_parts n ls js)) \<and>
   set (get_link_names (from_parts n ls js)) = l_name ` set ls"
  using parse_link_keys [of n "map LinkElem ls @ map JointElem js"]
  by (simp add: get_link_names_def from_parts_robot)

lemma from_parts_joint_names:
  "distinct (get_joint_names (from_parts n ls js)) \<and>
   set (get_joint_names (from_parts n ls js)) = j_name ` set js"
  using parse_joint_keys [of n "map LinkElem ls @ map JointElem js"]
  by (simp add: get_joint_names_def from_parts_robot)

lemma from_parts_name: "get_name (from_parts n ls js) = n"
  by (simp add: get_name_def from_parts_robot parse_name)

text \<open>
  C8.  For every joint \<open>j\<close> of a valid tree, \<open>get_sub_tree_at_joint\<close> returns: its loop ends
  and nothing is raised.  The result is a tree of its own, the object parsed from its own
  document, named after the joint.  Its root is the child link of \<open>j\<close>; its links are
  exactly the links of the tree whose names are reachable downward from that child link,
  and its joints are exactly the joints of the tree whose parent link is reachable, so its
  link names and joint names are those of the reachable links and joints.  When the child
  link of \<open>j\<close> is the parent of no joint, the result has that single link and no joint.
\<close>

theorem C8_sub_tree_at_joint:
  assumes "valid_tree self" and "j \<in> set (joints (urdf_robot self))"
  shows "\<exists>sub.
           get_sub_tree_at_joint self (j_name j) = Some (Inr sub) \<and>
           URDFObject_init (get_urdf sub) = sub \<and>
           get_name sub = j_name j \<and>
           get_root sub = Inr (child j) \<and>
           set (links (urdf_robot sub)) =
             {l \<in> set (links (urdf_robot self)). l_name l \<in> below self (child j)} \<and>
           set (joints (urdf_robot sub)) =
             {k \<in> set (joints (urdf_robot self)). parent k \<in> below self (child j)} \<and>
           set (get_link_names sub) = below self (child j) \<and>
           set (get_joint_names sub) =
             {j_name k | k. k \<in> set (joints (urdf_robot self)) \<and>
                            parent k \<in> below self (child j)} \<and>
           ((\<forall>k \<in> set (joints (urdf_robot self)). parent k \<noteq> child j) \<longrightarrow>
              get_link_names sub = [child j] \<and> get_joint_names sub = [] \<and>
              joints (urdf_robot sub) = [])"
proof -
  let ?B = "below self (child j)"
  from sub_tree_valid [OF assms] obtain ls js where
    r: "get_sub_tree_at_joint self (j_name j) = Some (Inr (from_parts (j_name j) ls js))"
    and ls: "set ls = {l \<in> set (links (urdf_robot self)). l_name l \<in> ?B}"
    and js: "set js = {k \<in> set (joints (urdf_robot self)). parent k \<in> ?B}"
    by blast
  let ?sub = "from_parts (j_name j) ls js"
  have 1: "URDFObject_init (get_urdf ?sub) = ?sub" by (rule from_parts_standalone)
  have 2: "get_name ?sub = j_name j" by (rule from_parts_name)
  have 3: "get_root ?sub = Inr (child j)" by (rule sub_tree_root [OF assms ls js])
  have 4: "set (links (urdf_robot ?sub)) =
             {l \<in> set (links (urdf_robot self)). l_name l \<in> ?B}"
    by (simp only: from_parts_links ls)
  have 5: "set (joints (urdf_robot ?sub)) =
             {k \<in> set (joints (urdf_robot self)). parent k \<in> ?B}"
    by (simp only: from_parts_joints js)
  have 6: "set (get_link_names ?sub) = ?B"
    using from_parts_link_names [of "j_name j" ls js] ls below_links [OF assms] by auto
  have 7: "set (get_joint_names ?sub) =
             {j_name k | k. k \<in> set (joints (urdf_robot self)) \<and> parent k \<in> ?B}"
    using from_parts_joint_names [of "j_name j" ls js] js by auto
  have 8: "get_link_names ?sub = [child j] \<and> get_joint_names ?sub = [] \<and>
           joints (urdf_robot ?sub) = []"
    if leaf: "\<forall>k \<in> set (joints (urdf_robot self)). parent k \<noteq> child j"
  proof -
    have B: "?B = {child j}"
      using below_unfold [of self "child j"] leaf by auto
    from js leaf have "set js = {}" unfolding B by auto
    then have e: "js = []" by simp
    from 6 B have "set (get_link_names ?sub) = {child j}" by simp
    with from_parts_link_names [of "j_name j" ls js]
    have "get_link_names ?sub = [child j]" by (simp only: distinct_singleton_set)
    moreover have "get_joint_names ?sub = []"
    proof -
      from from_parts_joint_names [of "j_name j" ls js]
      have "set (get_joint_names ?sub) = j_name ` set js" by blast
      with \<open>set js = {}\<close> have "set (get_joint_names ?sub) = {}" by simp
      then show ?thesis by simp
    qed
    moreover have "joints (urdf_robot ?sub) = []" by (simp only: from_parts_joints e)
    ultimately show ?thesis by blast
  qed
  from r 1 2 3 4 5 6 7 8 show ?thesis by blast
qed

lemma valid_tree_from_parts:
  assumes "distinct (map l_name ls)" and "distinct (map j_name js)"
    and "\<forall>j \<in> set js. parent j \<in> l_name ` set ls \<and> child j \<in> l_name ` set ls"
    and "distinct (map child js)"
    and "{x \<in> l_name ` set ls. x \<notin> child ` set js} = {rt}"
    and "\<forall>j \<in> set js. m (child j) < (m (parent j) :: nat)"
  shows "valid_tree (from_parts n ls js)"
proof -
  have p: "parsed (urdf_robot (from_parts n ls js))"
    by (simp only: from_parts_robot parsed_parse)
  from assms(5) have "{x \<in> l_name ` set (links (urdf_robot (from_parts n ls js))).
          x \<notin> child ` set (joints (urdf_robot (from_parts n ls js)))} = {rt}"
    by (simp only: from_parts_links from_parts_joints)
  with p have "get_root (from_parts n ls js) = Inr rt"
    by (simp only: get_root_def parsed_get_root)
  then have r: "\<exists>rt. get_root (from_parts n ls js) = Inr rt" by blast
  from assms(6) have "\<exists>m :: string \<Rightarrow> nat. \<forall>j \<in> set js. m (child j) < m (parent j)" by blast
  with p r assms(1-4) show ?thesis
    unfolding valid_tree_def from_parts_links from_parts_joints by blast
qed

lemma chain_tree_valid: "valid_tree chain_tree"
  unfolding chain_tree_def
proof (rule valid_tree_from_parts [where rt = "''base_link''" and m = chain_rank])
  show "distinct (map l_name [base_link, arm_link, hand_link])"
    by (simp add: base_link_def arm_link_def hand_link_def)
  show "distinct (map j_name [j1, j2])" by (simp add: j1_def j2_def)
  show "\<forall>j \<in> set [j1, j2]. parent j \<in> l_name ` set [base_link, arm_link, hand_link] \<and>
          child j \<in> l_name ` set [base_link, arm_link, hand_link]"
    by (simp add: j1_def j2_def base_link_def arm_link_def hand_link_def)
  show "distinct (map child [j1, j2])" by (simp add: j1_def j2_def)
  show "{x \<in> l_name ` set [base_link, arm_link, hand_link]. x \<notin> child ` set [j1, j2]} =
          {''base_link''}"
    by (auto simp add: j1_def j2_def base_link_def arm_link_def hand_link_def)
  show "\<forall>j \<in> set [j1, j2]. chain_rank (child j) < chain_rank (parent j)"
    by (simp add: j1_def j2_def chain_rank_def)
qed

lemma arm_tree_valid: "valid_tree arm_tree"
  unfolding arm_tree_def
proof (rule valid_tree_from_parts [where rt = "''base_link''" and m = chain_rank])
  show "distinct (map l_name [base_link, arm_link])"
    by (simp add: base_link_def arm_link_def)
  show "distinct (map j_name [j1])" by simp
  show "\<forall>j \<in> set [j1]. parent j \<in> l_name ` set [base_link, arm_link] \<and>
          child j \<in> l_name ` set [base_link, arm_link]"
    by (simp add: j1_def base_link_def arm_link_def)
  show "distinct (map child [j1])" by simp
  show "{x \<in> l_name ` set [base_link, arm_link]. x \<notin> child ` set [j1]} = {''base_link''}"
    by (auto simp add: j1_def base_link_def arm_link_def)
  show "\<forall>j \<in> set [j1]. chain_rank (child j) < chain_rank (parent j)"
    by (simp add: j1_def chain_rank_def)
qed

lemma chain_tree_joints: "joints (urdf_robot chain_tree) = [j1, j2]"
  by (simp only: chain_tree_def from_parts_joints)

lemma j1_j2_fields:
  "j_name j1 = ''j1''" "parent j1 = ''base_link''" "child j1 = ''arm_link''"
  "j_name j2 = ''j2''" "parent j2 = ''arm_link''" "child j2 = ''hand_link''"
  by (simp_all add: j1_def j2_def)

lemma chain_tree_below_hand: "below chain_tree ''hand_link'' = {''hand_link''}"
proof -
  have "{j \<in> set (joints (urdf_robot chain_tree)). parent j = ''hand_link''} = {}"
    by (auto simp add: chain_tree_joints j1_j2_fields)
  with below_unfold [of chain_tree "''hand_link''"] show ?thesis by simp
qed

lemma chain_tree_below_arm: "below chain_tree ''arm_link'' = {''arm_link'', ''hand_link''}"
proof -
  have "{j \<in> set (joints (urdf_robot chain_tree)). parent j = ''arm_link''} = {j2}"
    by (auto simp add: chain_tree_joints j1_j2_fields)
  with below_unfold [of chain_tree "''arm_link''"]
  have "below chain_tree ''arm_link'' = insert ''arm_link'' (below chain_tree (child j2))"
    by simp
  then show ?thesis by (simp only: j1_j2_fields chain_tree_below_hand)
qed

theorem C8_sub_tree_at_joint_witness:
  "valid_tree chain_tree \<and> j1 \<in> set (joints (urdf_robot chain_tree)) \<and>
   j2 \<in> set (joints (urdf_robot chain_tree)) \<and>
   (\<exists>sub. get_sub_tree_at_joint chain_tree ''j1'' = Some (Inr sub) \<and>
      get_root sub = Inr ''arm_link'' \<and>
      set (get_link_names sub) = {''arm_link'', ''hand_link''} \<and>
      set (get_joint_names sub) = {''j2''}) \<and>
   (\<exists>sub. get_sub_tree_at_joint chain_tree ''j2'' = Some (Inr sub) \<and>
      get_root sub = Inr ''hand_link'' \<and>
      get_link_names sub = [''hand_link''] \<and>
      get_joint_names sub = [])"
proof -
  have a: "j1 \<in> set (joints (urdf_robot chain_tree))"
    and b: "j2 \<in> set (joints (urdf_robot chain_tree))"
    by (simp_all add: chain_tree_joints)
  have n: "{j_name k | k. k \<in> set (joints (urdf_robot chain_tree)) \<and>
              parent k \<in> below chain_tree (child j1)} = {''j2''}"
    by (auto simp add: chain_tree_joints j1_j2_fields chain_tree_below_arm intro!: exI [of _ j2])
  have leaf: "\<forall>k \<in> set (joints (urdf_robot chain_tree)). parent k \<noteq> child j2"
    by (simp add: chain_tree_joints j1_j2_fields)
  from C8_sub_tree_at_joint [OF chain_tree_valid a] obtain s1 where
    s1: "get_sub_tree_at_joint chain_tree (j_name j1) = Some (Inr s1)"
      "get_root s1 = Inr (child j1)"
      "set (get_link_names s1) = below chain_tree (child j1)"
      "set (get_joint_names s1) =
         {j_name k | k. k \<in> set (joints (urdf_robot chain_tree)) \<and>
                        parent k \<in> below chain_tree (child j1)}"
    by blast
  have x: "\<exists>sub. get_sub_tree_at_joint chain_tree ''j1'' = Some (Inr sub) \<and>
      get_root sub = Inr ''arm_link'' \<and>
      set (get_link_names sub) = {''arm_link'', ''hand_link''} \<and>
      set (get_joint_names sub) = {''j2''}"
  proof (intro exI conjI)
    show "get_sub_tree_at_joint chain_tree ''j1'' = Some (Inr s1)"
      using s1(1) by (simp only: j1_j2_fields)
    show "get_root s1 = Inr ''arm_link''"
      using s1(2) by (simp only: j1_j2_fields)
    show "set (get_link_names s1) = {''arm_link'', ''hand_link''}"
      using s1(3) by (simp only: j1_j2_fields chain_tree_below_arm)
    show "set (get_joint_names s1) = {''j2''}"
      using s1(4) by (simp only: n)
  qed
  from C8_sub_tree_at_joint [OF chain_tree_valid b] obtain s2 where
    s2: "get_sub_tree_at_joint chain_tree (j_name j2) = Some (Inr s2)"
      "get_root s2 = Inr (child j2)"
      "(\<forall>k \<in> set (joints (urdf_robot chain_tree)). parent k \<noteq> child j2) \<longrightarrow>
         get_link_names s2 = [child j2] \<and> get_joint_names s2 = [] \<and>
         joints (urdf_robot s2) = []"
    by blast
  have y: "\<exists>sub. get_sub_tree_at_joint chain_tree ''j2'' = Some (Inr sub) \<and>
      get_root sub = Inr ''hand_link'' \<and>
      get_link_names sub = [''hand_link''] \<and>
      get_joint_names sub = []"
  proof (intro exI conjI)
    show "get_sub_tree_at_joint chain_tree ''j2'' = Some (Inr s2)"
      using s2(1) by (simp only: j1_j2_fields)
    show "get_root s2 = Inr ''hand_link''"
      using s2(2) by (simp only: j1_j2_fields)
    show "get_link_names s2 = [''hand_link'']"
      using s2(3) leaf by (simp only: j1_j2_fields)
    show "get_joint_names s2 = []"
      using s2(3) leaf by blast
  qed
  from chain_tree_valid a b x y show ?thesis by blast
qed

end
